theory Spec2Isabelle
  imports Main
begin

section \<open>The resource teardown sweep of sample-notebook.ipynb\<close>

text \<open>
  The last code cell of the notebook lists the models of a project, deletes the versions of
  every model, waits for the deletions in 5 second rounds and finally deletes the models.
  It talks to the management API through \<^verbatim>\<open>service...execute()\<close>, prints, and sleeps.
  The embedding keeps all three as events of a trace; the API is a parameter of every
  function, and may answer a request depending on everything that happened before it.
\<close>

subsection \<open>Decoded JSON, exceptions, events\<close>

text \<open>
  A decoded response is a Python dict. It is kept as the list of its items, one item per
  key and the keys in one fixed order; \<^verbatim>\<open>k in d\<close> and \<^verbatim>\<open>d[k]\<close> go through \<open>map_of\<close>,
  and Python's \<^verbatim>\<open>==\<close> on decoded values (which \<^verbatim>\<open>list.remove\<close> uses) is equality of
  the representations. The code never looks into a value other than through these two
  operations: names and handles are passed on to the API and to \<^verbatim>\<open>print\<close> as they are.
\<close>

datatype json =
    JNull
  | JBool bool
  | JNum int
  | JStr string
  | JArr "json list"
  | JObj "(string \<times> json) list"

type_synonym dict = "(string \<times> json) list"

text \<open>
  The exceptions the cell can raise by itself. \<open>StillWaiting\<close> is not a Python exception:
  it is the outcome of a run whose polling loop was still running when the round budget
  given to the model was used up.
\<close>

datatype error =
    KeyError string
  | IndexError
  | NameError string
  | TypeError
  | StillWaiting

datatype request =
    ModelsList string
  | VersionsList json
  | VersionsDelete json
  | ModelsDelete json
  | OperationsGet json

datatype event =
    Call request dict
  | Print "json list"
  | Sleep nat

type_synonym trace = "event list"

text \<open>The API: the response to a request, given the trace up to the request.\<close>

type_synonym api = "trace \<Rightarrow> request \<Rightarrow> dict"

definition has_key :: "dict \<Rightarrow> string \<Rightarrow> bool" where
  "has_key d k = (map_of d k \<noteq> None)"

definition getitem :: "dict \<Rightarrow> string \<Rightarrow> error + json" where
  "getitem d k = (case map_of d k of None \<Rightarrow> Inl (KeyError k) | Some v \<Rightarrow> Inr v)"

text \<open>
  The discovery document of the API types \<^verbatim>\<open>models\<close> and \<^verbatim>\<open>versions\<close> as arrays of
  objects. The model decodes the array where the code returns it, and a payload that is
  not an array of objects is a \<open>TypeError\<close> there.
\<close>

fun as_dict :: "json \<Rightarrow> dict option" where
  "as_dict (JObj d) = Some d"
| "as_dict _ = None"

definition as_dicts :: "json \<Rightarrow> error + dict list" where
  "as_dicts v =
     (case v of
        JArr xs \<Rightarrow> (if list_all (\<lambda>x. as_dict x \<noteq> None) xs
                    then Inr (map (\<lambda>x. the (as_dict x)) xs) else Inl TypeError)
      | _ \<Rightarrow> Inl TypeError)"

text \<open>Sequencing of two steps: an exception of the first step ends the run.\<close>

definition bind :: "(error + 'a) \<times> trace \<Rightarrow> ('a \<Rightarrow> trace \<Rightarrow> (error + 'b) \<times> trace)
    \<Rightarrow> (error + 'b) \<times> trace" where
  "bind r f = (case r of (Inl e, tr) \<Rightarrow> (Inl e, tr) | (Inr x, tr) \<Rightarrow> f x tr)"

subsection \<open>The functions of the cell\<close>

definition get_models :: "api \<Rightarrow> string \<Rightarrow> trace \<Rightarrow> (error + dict list) \<times> trace" where
  "get_models srv project tr =
     (let req = ModelsList (''projects/'' @ project);
          response = srv tr req;
          tr1 = tr @ [Call req response]
      in bind (getitem response ''models'', tr1) (\<lambda>v tr2. (as_dicts v, tr2)))"

definition get_versions :: "api \<Rightarrow> json \<Rightarrow> trace \<Rightarrow> (error + dict list) \<times> trace" where
  "get_versions srv model tr =
     (let req = VersionsList model;
          response = srv tr req;
          tr1 = tr @ [Call req response]
      in bind (getitem response ''versions'', tr1) (\<lambda>v tr2. (as_dicts v, tr2)))"

text \<open>
  \<^verbatim>\<open>print(error)\<close> names a variable that the notebook never binds, so reaching it is
  a \<open>NameError\<close>.
\<close>

definition delete_version :: "api \<Rightarrow> dict \<Rightarrow> trace \<Rightarrow> (error + json) \<times> trace" where
  "delete_version srv version tr =
     bind (getitem version ''name'', tr) (\<lambda>name tr0.
       let tr1 = tr0 @ [Print [JStr ''Deleting version: '', name]];
           response = srv tr1 (VersionsDelete name);
           tr2 = tr1 @ [Call (VersionsDelete name) response]
       in if has_key response ''error'' then (Inl (NameError ''error''), tr2)
          else (getitem response ''name'', tr2))"

definition delete_model :: "api \<Rightarrow> dict \<Rightarrow> trace \<Rightarrow> (error + unit) \<times> trace" where
  "delete_model srv model tr =
     bind (getitem model ''name'', tr) (\<lambda>name tr0.
       let tr1 = tr0 @ [Print [JStr ''Deleting model: '', name]];
           response = srv tr1 (ModelsDelete name);
           tr2 = tr1 @ [Call (ModelsDelete name) response]
       in if has_key response ''error'' then (Inl (NameError ''error''), tr2)
          else (Inr (), tr2))"

definition is_version_deleted :: "api \<Rightarrow> json \<Rightarrow> trace \<Rightarrow> bool \<times> trace" where
  "is_version_deleted srv operation tr =
     (let tr1 = tr @ [Print [JStr ''Checking status for operation: '', operation]];
          response = srv tr1 (OperationsGet operation);
          tr2 = tr1 @ [Call (OperationsGet operation) response, Print [JObj response]]
      in (has_key response ''done'', tr2))"

subsection \<open>The loops of the sweep\<close>

text \<open>
  \<^verbatim>\<open>for version in versions\<close> reads \<^verbatim>\<open>versions[i]\<close> for \<open>i = 0, 1, ...\<close> until \<open>i\<close>
  reaches the current length of the list, and the body removes from that same list:
  the index and the current list are both state of the loop. \<^verbatim>\<open>versions.remove(x)\<close>
  removes the first item equal to \<open>x\<close>.
\<close>

function non_default_loop ::
  "api \<Rightarrow> nat \<Rightarrow> dict list \<Rightarrow> json list \<Rightarrow> trace \<Rightarrow> (error + dict list \<times> json list) \<times> trace" where
  "non_default_loop srv i versions deletions_in_progress tr =
     (if i < length versions then
        (let version = versions ! i in
         if \<not> has_key version ''isDefault'' then
           bind (delete_version srv version tr) (\<lambda>h tr1.
             non_default_loop srv (Suc i) (remove1 version versions)
               (deletions_in_progress @ [h]) tr1)
         else non_default_loop srv (Suc i) versions deletions_in_progress tr)
      else (Inr (versions, deletions_in_progress), tr))"
  by pat_completeness auto
termination
  by (relation "measure (\<lambda>(srv, i, versions, d, tr). length versions - i)")
     (auto simp: length_remove1)

text \<open>
  One polling round: \<^verbatim>\<open>for d in pending: if is_version_deleted(d): ... pending.remove(d)\<close>,
  again an index into a list that the body shortens.
\<close>

function poll_round :: "api \<Rightarrow> nat \<Rightarrow> json list \<Rightarrow> trace \<Rightarrow> json list \<times> trace" where
  "poll_round srv i pending tr =
     (if i < length pending then
        (let d = pending ! i;
             (done, tr1) = is_version_deleted srv d tr
         in if done then
              poll_round srv (Suc i) (remove1 d pending)
                (tr1 @ [Print [JStr ''Deletion completed: '', d]])
            else poll_round srv (Suc i) pending tr1)
      else (pending, tr))"
  by pat_completeness auto
termination
  by (relation "measure (\<lambda>(srv, i, pending, tr). length pending - i)")
     (auto simp: length_remove1)

text \<open>
  \<^verbatim>\<open>while len(pending) > 0: print("Waiting 5s"); time.sleep(5); for ...\<close>. The loop has no
  bound of its own; the first argument is the number of rounds the model may run, and a
  loop that needs more ends as \<open>StillWaiting\<close>.
\<close>

fun poll_wait :: "api \<Rightarrow> nat \<Rightarrow> json list \<Rightarrow> trace \<Rightarrow> (error + unit) \<times> trace" where
  "poll_wait srv n [] tr = (Inr (), tr)"
| "poll_wait srv 0 (d # ds) tr = (Inl StillWaiting, tr)"
| "poll_wait srv (Suc n) (d # ds) tr =
     (let (pending, tr1) = poll_round srv 0 (d # ds) (tr @ [Print [JStr ''Waiting 5s''], Sleep 5])
      in poll_wait srv n pending tr1)"

text \<open>\<^verbatim>\<open>versions[0]\<close> on the list the first loop left.\<close>

definition first_version :: "dict list \<Rightarrow> error + dict" where
  "first_version versions = (case versions of [] \<Rightarrow> Inl IndexError | v # _ \<Rightarrow> Inr v)"

text \<open>The body of \<^verbatim>\<open>for model in models\<close>; its value is the handle of the last deletion.\<close>

definition model_body :: "api \<Rightarrow> nat \<Rightarrow> dict \<Rightarrow> trace \<Rightarrow> (error + json) \<times> trace" where
  "model_body srv n model tr =
     bind (getitem model ''name'', tr) (\<lambda>name tr0.
     bind (get_versions srv name (tr0 @ [Print [JStr ''Model: '', name]])) (\<lambda>versions tr1.
     bind (non_default_loop srv 0 versions [] tr1) (\<lambda>(versions', deletions_in_progress) tr2.
     bind (poll_wait srv n deletions_in_progress tr2) (\<lambda>_ tr3.
     bind (first_version versions', tr3) (\<lambda>v tr4.
       delete_version srv v tr4)))))"

fun models_loop ::
  "api \<Rightarrow> nat \<Rightarrow> dict list \<Rightarrow> json list \<Rightarrow> trace \<Rightarrow> (error + json list) \<times> trace" where
  "models_loop srv n [] default_version_deletions tr = (Inr default_version_deletions, tr)"
| "models_loop srv n (model # models) default_version_deletions tr =
     bind (model_body srv n model tr) (\<lambda>h tr1.
       models_loop srv n models (default_version_deletions @ [h]) tr1)"

fun delete_models :: "api \<Rightarrow> dict list \<Rightarrow> trace \<Rightarrow> (error + unit) \<times> trace" where
  "delete_models srv [] tr = (Inr (), tr)"
| "delete_models srv (model # models) tr =
     bind (delete_model srv model tr) (\<lambda>_ tr1. delete_models srv models tr1)"

text \<open>The whole cell, started on the empty trace; \<open>n\<close> bounds the rounds of each polling loop.\<close>

definition sweep :: "api \<Rightarrow> nat \<Rightarrow> string \<Rightarrow> (error + unit) \<times> trace" where
  "sweep srv n project =
     bind (get_models srv project []) (\<lambda>models tr1.
     bind (models_loop srv n models [] tr1) (\<lambda>default_version_deletions tr2.
     bind (poll_wait srv n default_version_deletions tr2) (\<lambda>_ tr3.
       delete_models srv models tr3)))"

subsection \<open>Reading a trace\<close>

fun version_deletes :: "trace \<Rightarrow> json list" where
  "version_deletes [] = []"
| "version_deletes (Call (VersionsDelete v) r # tr) = v # version_deletes tr"
| "version_deletes (e # tr) = version_deletes tr"

fun model_deletes :: "trace \<Rightarrow> json list" where
  "model_deletes [] = []"
| "model_deletes (Call (ModelsDelete m) r # tr) = m # model_deletes tr"
| "model_deletes (e # tr) = model_deletes tr"

fun polls :: "trace \<Rightarrow> json list" where
  "polls [] = []"
| "polls (Call (OperationsGet h) r # tr) = h # polls tr"
| "polls (e # tr) = polls tr"

fun sleeps :: "trace \<Rightarrow> nat list" where
  "sleeps [] = []"
| "sleeps (Sleep s # tr) = s # sleeps tr"
| "sleeps (e # tr) = sleeps tr"

text \<open>
  What the code takes for the end of an operation: a poll of it in the trace was answered
  with a payload that has the key \<^verbatim>\<open>done\<close>, whatever the value under the key.
\<close>

fun answered_done :: "trace \<Rightarrow> json \<Rightarrow> bool" where
  "answered_done [] h = False"
| "answered_done (Call (OperationsGet h') r # tr) h = ((h' = h \<and> has_key r ''done'') \<or> answered_done tr h)"
| "answered_done (e # tr) h = answered_done tr h"

subsection \<open>A mock of the management API\<close>

text \<open>
  The mock serves a fixed list of models and fixed versions for each model, accepts every
  deletion and answers it with an operation named after the deleted resource, and reports
  an operation as done once \<open>k\<close> sleeps have gone by.
\<close>

fun op_name :: "json \<Rightarrow> json" where
  "op_name (JStr s) = JStr (''operations/delete_'' @ s)"
| "op_name v = v"

fun mock_api :: "dict list \<Rightarrow> (json \<Rightarrow> dict list) \<Rightarrow> nat \<Rightarrow> api" where
  "mock_api models versions_of k tr (ModelsList p) = [(''models'', JArr (map JObj models))]"
| "mock_api models versions_of k tr (VersionsList m) = [(''versions'', JArr (map JObj (versions_of m)))]"
| "mock_api models versions_of k tr (VersionsDelete v) = [(''name'', op_name v)]"
| "mock_api models versions_of k tr (ModelsDelete m) = [(''name'', op_name m)]"
| "mock_api models versions_of k tr (OperationsGet h) =
     (if k \<le> length (sleeps tr) then [(''name'', h), (''done'', JBool True)] else [(''name'', h)])"

subsection \<open>Scenarios\<close>

definition cart_model :: dict where
  "cart_model = [(''name'', JStr ''clf_add_to_cart'')]"

text \<open>Two versions without the \<^verbatim>\<open>isDefault\<close> key and the default version, for any model.\<close>

definition three_versions :: "json \<Rightarrow> dict list" where
  "three_versions m =
     [[(''name'', JStr ''v1'')], [(''name'', JStr ''v2'')],
      [(''name'', JStr ''v3''), (''isDefault'', JBool True)]]"

definition no_versions :: "json \<Rightarrow> dict list" where
  "no_versions m = []"

text \<open>An API that answers every request with an error payload.\<close>

definition error_api :: api where
  "error_api tr req = [(''error'', JObj [(''code'', JNum 403)])]"

text \<open>
  An API that reports every operation as still running, with the \<^verbatim>\<open>done\<close> field of the
  Operation resource written out as \<^verbatim>\<open>false\<close>.
\<close>

definition done_false_api :: api where
  "done_false_api tr req = [(''name'', JStr ''op''), (''done'', JBool False)]"

text \<open>
  What the specification calls "the response reports completion", as the Operation
  resource defines it: the field \<^verbatim>\<open>done\<close> is \<^verbatim>\<open>true\<close>. This definition follows the
  specification, not the code; \<open>is_version_deleted\<close> above is the code.
\<close>

definition reports_completion :: "dict \<Rightarrow> bool" where
  "reports_completion response = (map_of response ''done'' = Some (JBool True))"

subsection \<open>More readings of a trace\<close>

text \<open>The responses that the version deletions of a trace received.\<close>

fun delete_responses :: "trace \<Rightarrow> dict list" where
  "delete_responses [] = []"
| "delete_responses (Call (VersionsDelete v) r # tr) = r # delete_responses tr"
| "delete_responses (e # tr) = delete_responses tr"

fun is_model_delete :: "event \<Rightarrow> bool" where
  "is_model_delete (Call (ModelsDelete m) r) = True"
| "is_model_delete e = False"

text \<open>The events of a polling round, of a whole wait, of a version deletion, of a model deletion.\<close>

fun check_event :: "event \<Rightarrow> bool" where
  "check_event (Call (OperationsGet h) r) = True"
| "check_event (Call q r) = False"
| "check_event (Print p) = True"
| "check_event (Sleep s) = False"

fun wait_event :: "event \<Rightarrow> bool" where
  "wait_event (Call (OperationsGet h) r) = True"
| "wait_event (Call q r) = False"
| "wait_event (Print p) = True"
| "wait_event (Sleep s) = (s = 5)"

fun version_event :: "event \<Rightarrow> bool" where
  "version_event (Call (VersionsDelete v) r) = True"
| "version_event (Call q r) = False"
| "version_event (Print p) = True"
| "version_event (Sleep s) = False"

fun model_event :: "event \<Rightarrow> bool" where
  "model_event (Call (ModelsDelete h) r) = True"
| "model_event (Call q r) = False"
| "model_event (Print p) = True"
| "model_event (Sleep s) = False"

text \<open>An API on which no operation is ever done.\<close>

definition never_done_api :: api where
  "never_done_api tr req = [(''name'', JStr ''op'')]"

text \<open>
  Every version deletion of the trace was answered with a handle, and a poll of the handle
  was answered with the key \<^verbatim>\<open>done\<close> in the trace, or the handle is one of \<open>S\<close>.
\<close>

definition settled :: "trace \<Rightarrow> json set \<Rightarrow> bool" where
  "settled tr S =
     (\<forall>r \<in> set (delete_responses tr). \<exists>h. map_of r ''name'' = Some h \<and> (answered_done tr h \<or> h \<in> S))"

text \<open>A version without the key and one that carries \<^verbatim>\<open>"isDefault": false\<close>.\<close>

definition plain_and_false :: "json \<Rightarrow> dict list" where
  "plain_and_false m =
     [[(''name'', JStr ''v0'')], [(''name'', JStr ''v1''), (''isDefault'', JBool False)]]"

text \<open>An API with one model whose version list response has no \<^verbatim>\<open>versions\<close> key.\<close>

fun no_versions_key_api :: api where
  "no_versions_key_api tr (ModelsList p) = [(''models'', JArr [JObj cart_model])]"
| "no_versions_key_api tr req = []"

text \<open>A single version, without the key; a single version, the default.\<close>

definition single_plain :: "json \<Rightarrow> dict list" where
  "single_plain m = [[(''name'', JStr ''v1'')]]"

definition v1_default :: dict where
  "v1_default = [(''name'', JStr ''v1''), (''isDefault'', JBool True)]"

definition only_default :: "json \<Rightarrow> dict list" where
  "only_default m = [v1_default]"

text \<open>
  Every version deletion of \<open>tr\<close> was answered with a handle, and a poll of that handle was
  answered with the key \<^verbatim>\<open>done\<close> in \<open>before\<close>.
\<close>

definition all_answered_done :: "trace \<Rightarrow> trace \<Rightarrow> bool" where
  "all_answered_done before tr =
     list_all (\<lambda>r. case map_of r ''name'' of None \<Rightarrow> False | Some h \<Rightarrow> answered_done before h)
       (delete_responses tr)"

text \<open>Two models.\<close>

definition two_models :: "dict list" where
  "two_models = [cart_model, [(''name'', JStr ''clf_purchase'')]]"

text \<open>An API like the mock with \<open>k = 0\<close>, except that it answers a model deletion with an error.\<close>

fun model_error_api :: api where
  "model_error_api tr (ModelsList p) = [(''models'', JArr (map JObj two_models))]"
| "model_error_api tr (VersionsList m) = [(''versions'', JArr [JObj v1_default])]"
| "model_error_api tr (VersionsDelete v) = [(''name'', op_name v)]"
| "model_error_api tr (ModelsDelete m) = [(''error'', JObj [(''code'', JNum 403)])]"
| "model_error_api tr (OperationsGet h) = [(''name'', h), (''done'', JBool True)]"

text \<open>
  What the specification calls an operation that has reported completion, read off a trace:
  a poll of it was answered with \<^verbatim>\<open>done\<close> being \<^verbatim>\<open>true\<close>. Like \<open>reports_completion\<close>,
  this follows the specification, not the code.
\<close>

fun reported :: "trace \<Rightarrow> json \<Rightarrow> bool" where
  "reported [] h = False"
| "reported (Call (OperationsGet h') r # tr) h = ((h' = h \<and> reports_completion r) \<or> reported tr h)"
| "reported (e # tr) h = reported tr h"

text \<open>
  An API with the one model and its default version that accepts every deletion and answers
  every poll with the operation still running, \<^verbatim>\<open>done\<close> written out as \<^verbatim>\<open>false\<close>.
\<close>

fun done_false_mock :: api where
  "done_false_mock tr (ModelsList p) = [(''models'', JArr [JObj cart_model])]"
| "done_false_mock tr (VersionsList m) = [(''versions'', JArr [JObj v1_default])]"
| "done_false_mock tr (VersionsDelete v) = [(''name'', op_name v)]"
| "done_false_mock tr (ModelsDelete m) = [(''name'', op_name m)]"
| "done_false_mock tr (OperationsGet h) = [(''name'', h), (''done'', JBool False)]"

section \<open>Properties\<close>

subsection \<open>The polling round skips the handle after a completed one\<close>

text \<open>
  C6. Claimed: in every round the loop re-checks every handle still pending and removes
  exactly those that report completion. With two pending handles whose operations are both
  done, the round polls \<open>op1\<close>, removes it, and ends: the index is then 1 and the list has
  length 1, so \<open>op2\<close> is still pending and was not re-checked in this round.
\<close>

theorem poll_round_skips_next:
  "poll_round (mock_api [] no_versions 0) 0 [JStr ''op1'', JStr ''op2''] [] =
   ([JStr ''op2''],
    [Print [JStr ''Checking status for operation: '', JStr ''op1''],
     Call (OperationsGet (JStr ''op1'')) [(''name'', JStr ''op1''), (''done'', JBool True)],
     Print [JObj [(''name'', JStr ''op1''), (''done'', JBool True)]],
     Print [JStr ''Deletion completed: '', JStr ''op1'']])"
  by code_simp

subsection \<open>Three versions, one default\<close>

text \<open>
  C1. Claimed: for a model with N versions, exactly one of them default, the sweep issues N
  version deletions, the default one last. For the versions \<open>v1, v2, v3\<close> with \<open>v3\<close> the
  default, the sweep runs to its end and has issued two version deletions: \<open>v1\<close> in the
  first loop, which then skips \<open>v2\<close>, and \<open>v2\<close> as \<^verbatim>\<open>versions[0]\<close>. The default version
  \<open>v3\<close> is never deleted.
\<close>

theorem three_versions_two_deletes:
  "fst (sweep (mock_api [cart_model] three_versions 1) 3 ''p'') = Inr ()
   \<and> version_deletes (snd (sweep (mock_api [cart_model] three_versions 1) 3 ''p''))
       = [JStr ''v1'', JStr ''v2'']"
  by code_simp

subsection \<open>An error payload\<close>

text \<open>
  C3. Claimed: an \<^verbatim>\<open>error\<close> key in a delete response is printed and not raised, except on
  exactly one path. Both \<open>delete_version\<close> and \<open>delete_model\<close> end in a \<open>NameError\<close> on
  such a response, and neither prints the error.
\<close>

theorem error_payload_raises_NameError:
  "delete_version error_api [(''name'', JStr ''v1'')] [] =
     (Inl (NameError ''error''),
      [Print [JStr ''Deleting version: '', JStr ''v1''],
       Call (VersionsDelete (JStr ''v1'')) [(''error'', JObj [(''code'', JNum 403)])]])
   \<and> delete_model error_api cart_model [] =
     (Inl (NameError ''error''),
      [Print [JStr ''Deleting model: '', JStr ''clf_add_to_cart''],
       Call (ModelsDelete (JStr ''clf_add_to_cart'')) [(''error'', JObj [(''code'', JNum 403)])]])"
  by code_simp

subsection \<open>The poller tests the presence of a key\<close>

text \<open>
  C2. Claimed: \<open>is_version_deleted\<close> reports an operation as complete if and only if the
  response reports completion. A response that carries \<^verbatim>\<open>"done": false\<close> does not report
  completion, and the poller answers \<open>True\<close> to it.
\<close>

theorem done_false_is_reported_complete:
  "fst (is_version_deleted done_false_api (JStr ''op'') []) = True
   \<and> reports_completion
        (done_false_api [Print [JStr ''Checking status for operation: '', JStr ''op'']]
           (OperationsGet (JStr ''op''))) = False"
  by code_simp

text \<open>
  C2, amended. \<open>is_version_deleted\<close> reports an operation as complete if and only if the
  response to its get-operation request contains the key \<^verbatim>\<open>done\<close>, whatever the value.
\<close>

theorem is_version_deleted_iff_done_key:
  "fst (is_version_deleted srv operation tr) =
     has_key (srv (tr @ [Print [JStr ''Checking status for operation: '', operation]])
                (OperationsGet operation)) ''done''"
  by (simp add: is_version_deleted_def Let_def)

declare poll_round.simps [simp del]
declare non_default_loop.simps [simp del]

subsection \<open>Traces and their readings\<close>

lemma version_deletes_append: "version_deletes (a @ b) = version_deletes a @ version_deletes b"
  by (induction a rule: version_deletes.induct) simp_all

lemma model_deletes_append: "model_deletes (a @ b) = model_deletes a @ model_deletes b"
  by (induction a rule: model_deletes.induct) simp_all

lemma polls_append: "polls (a @ b) = polls a @ polls b"
  by (induction a rule: polls.induct) simp_all

lemma sleeps_append: "sleeps (a @ b) = sleeps a @ sleeps b"
  by (induction a rule: sleeps.induct) simp_all

lemma delete_responses_append:
  "delete_responses (a @ b) = delete_responses a @ delete_responses b"
  by (induction a rule: delete_responses.induct) simp_all

lemma answered_done_append: "answered_done (a @ b) h = (answered_done a h \<or> answered_done b h)"
  by (induction a h rule: answered_done.induct) auto

lemma check_event_wait: "check_event e \<Longrightarrow> wait_event e"
  by (cases e rule: check_event.cases) simp_all

lemma check_events_wait: "list_all check_event ev \<Longrightarrow> list_all wait_event ev"
  by (induction ev) (simp_all add: check_event_wait)

lemma check_events_no_sleep: "list_all check_event ev \<Longrightarrow> sleeps ev = []"
proof (induction ev)
  case Nil
  then show ?case by simp
next
  case (Cons e ev)
  then show ?case by (cases e rule: check_event.cases) simp_all
qed

lemma wait_events_reading:
  "list_all wait_event ev \<Longrightarrow>
     version_deletes ev = [] \<and> model_deletes ev = [] \<and> delete_responses ev = []
     \<and> list_all (\<lambda>e. \<not> is_model_delete e) ev \<and> set (sleeps ev) \<subseteq> {5}"
proof (induction ev)
  case Nil
  then show ?case by simp
next
  case (Cons e ev)
  then show ?case by (cases e rule: wait_event.cases) simp_all
qed

lemma version_events_reading:
  "list_all version_event ev \<Longrightarrow>
     polls ev = [] \<and> model_deletes ev = [] \<and> sleeps ev = []
     \<and> list_all (\<lambda>e. \<not> is_model_delete e) ev \<and> (\<forall>h. \<not> answered_done ev h)"
proof (induction ev)
  case Nil
  then show ?case by simp
next
  case (Cons e ev)
  then show ?case by (cases e rule: version_event.cases) simp_all
qed

lemma model_events_reading:
  "list_all model_event ev \<Longrightarrow>
     polls ev = [] \<and> version_deletes ev = [] \<and> sleeps ev = [] \<and> delete_responses ev = []"
proof (induction ev)
  case Nil
  then show ?case by simp
next
  case (Cons e ev)
  then show ?case by (cases e rule: model_event.cases) simp_all
qed

subsection \<open>One poll\<close>

lemma is_version_deleted_trace:
  "snd (is_version_deleted srv h tr) =
     tr @ [Print [JStr ''Checking status for operation: '', h],
           Call (OperationsGet h)
             (srv (tr @ [Print [JStr ''Checking status for operation: '', h]]) (OperationsGet h)),
           Print [JObj (srv (tr @ [Print [JStr ''Checking status for operation: '', h]])
                          (OperationsGet h))]]"
  by (simp add: is_version_deleted_def Let_def)

lemma is_version_deleted_ext:
  "\<exists>ev. snd (is_version_deleted srv h tr) = tr @ ev \<and> list_all check_event ev"
  by (simp add: is_version_deleted_trace)

lemma is_version_deleted_answered_done:
  "is_version_deleted srv h tr = (True, tr') \<Longrightarrow> answered_done tr' h"
  by (auto simp: is_version_deleted_def Let_def answered_done_append)

lemma is_version_deleted_never:
  "\<forall>t. \<not> has_key (srv t (OperationsGet h)) ''done'' \<Longrightarrow> \<not> fst (is_version_deleted srv h tr)"
  by (simp add: is_version_deleted_def Let_def)

subsection \<open>One polling round\<close>

lemma poll_round_end: "\<not> i < length pending \<Longrightarrow> poll_round srv i pending tr = (pending, tr)"
  by (simp add: poll_round.simps)

lemma poll_round_step:
  "i < length pending \<Longrightarrow> is_version_deleted srv (pending ! i) tr = (b, tr1) \<Longrightarrow>
   poll_round srv i pending tr =
     (if b then poll_round srv (Suc i) (remove1 (pending ! i) pending)
                 (tr1 @ [Print [JStr ''Deletion completed: '', pending ! i]])
      else poll_round srv (Suc i) pending tr1)"
  by (subst poll_round.simps) (simp add: Let_def)

lemma poll_round_ext:
  "\<exists>ev. snd (poll_round srv i pending tr) = tr @ ev \<and> list_all check_event ev"
proof (induction srv i pending tr rule: poll_round.induct)
  case (1 srv i pending tr)
  show ?case
  proof (cases "i < length pending")
    case False
    then show ?thesis by (simp add: poll_round_end)
  next
    case True
    obtain b tr1 where iv: "is_version_deleted srv (pending ! i) tr = (b, tr1)"
      by (cases "is_version_deleted srv (pending ! i) tr")
    from is_version_deleted_ext [of srv "pending ! i" tr] iv
    obtain ev1 where ev1: "tr1 = tr @ ev1" "list_all check_event ev1" by auto
    show ?thesis
    proof (cases b)
      case True
      from "1.IH"(1) [OF \<open>i < length pending\<close> refl refl iv [symmetric] True]
      obtain ev2 where "snd (poll_round srv (Suc i) (remove1 (pending ! i) pending)
            (tr1 @ [Print [JStr ''Deletion completed: '', pending ! i]])) =
          (tr1 @ [Print [JStr ''Deletion completed: '', pending ! i]]) @ ev2"
        "list_all check_event ev2" by blast
      with ev1 True show ?thesis
        by (simp add: poll_round_step [OF \<open>i < length pending\<close> iv])
    next
      case False
      from "1.IH"(2) [OF \<open>i < length pending\<close> refl refl iv [symmetric] False]
      obtain ev2 where "snd (poll_round srv (Suc i) pending tr1) = tr1 @ ev2"
        "list_all check_event ev2" by blast
      with ev1 False show ?thesis
        by (simp add: poll_round_step [OF \<open>i < length pending\<close> iv])
    qed
  qed
qed

text \<open>A handle leaves the pending list only after a poll of it was answered with done.\<close>

lemma poll_round_removed_answered_done:
  "h \<in> set pending \<Longrightarrow>
     h \<in> set (fst (poll_round srv i pending tr)) \<or> answered_done (snd (poll_round srv i pending tr)) h"
proof (induction srv i pending tr rule: poll_round.induct)
  case (1 srv i pending tr)
  show ?case
  proof (cases "i < length pending")
    case False
    with "1.prems" show ?thesis by (simp add: poll_round_end)
  next
    case True
    obtain b tr1 where iv: "is_version_deleted srv (pending ! i) tr = (b, tr1)"
      by (cases "is_version_deleted srv (pending ! i) tr")
    show ?thesis
    proof (cases b)
      case True
      let ?R = "poll_round srv (Suc i) (remove1 (pending ! i) pending)
                  (tr1 @ [Print [JStr ''Deletion completed: '', pending ! i]])"
      have step: "poll_round srv i pending tr = ?R"
        using True by (simp add: poll_round_step [OF \<open>i < length pending\<close> iv])
      show ?thesis
      proof (cases "h \<in> set (remove1 (pending ! i) pending)")
        case True
        from "1.IH"(1) [OF \<open>i < length pending\<close> refl refl iv [symmetric] \<open>b\<close> True] step
        show ?thesis by simp
      next
        case False
        with "1.prems" have "h = pending ! i"
          by (metis in_set_remove1)
        moreover from iv \<open>b\<close> have "answered_done tr1 (pending ! i)"
          by (simp add: is_version_deleted_answered_done)
        moreover obtain ev where "snd ?R = (tr1 @ [Print [JStr ''Deletion completed: '', pending ! i]]) @ ev"
          using poll_round_ext by blast
        ultimately show ?thesis using step by (simp add: answered_done_append)
      qed
    next
      case False
      from "1.IH"(2) [OF \<open>i < length pending\<close> refl refl iv [symmetric] False "1.prems"] False
      show ?thesis by (simp add: poll_round_step [OF \<open>i < length pending\<close> iv])
    qed
  qed
qed

lemma poll_round_subset: "set (fst (poll_round srv i pending tr)) \<subseteq> set pending"
proof (induction srv i pending tr rule: poll_round.induct)
  case (1 srv i pending tr)
  show ?case
  proof (cases "i < length pending")
    case False
    then show ?thesis by (simp add: poll_round_end)
  next
    case True
    obtain b tr1 where iv: "is_version_deleted srv (pending ! i) tr = (b, tr1)"
      by (cases "is_version_deleted srv (pending ! i) tr")
    show ?thesis
    proof (cases b)
      case True
      from "1.IH"(1) [OF \<open>i < length pending\<close> refl refl iv [symmetric] True] True
        set_remove1_subset [of "pending ! i" pending]
      show ?thesis by (auto simp: poll_round_step [OF \<open>i < length pending\<close> iv])
    next
      case False
      from "1.IH"(2) [OF \<open>i < length pending\<close> refl refl iv [symmetric] False] False
      show ?thesis by (simp add: poll_round_step [OF \<open>i < length pending\<close> iv])
    qed
  qed
qed

text \<open>A handle whose operation is never done stays pending.\<close>

lemma poll_round_never_done:
  "h \<in> set pending \<Longrightarrow> \<forall>t. \<not> has_key (srv t (OperationsGet h)) ''done'' \<Longrightarrow>
     h \<in> set (fst (poll_round srv i pending tr))"
proof (induction srv i pending tr rule: poll_round.induct)
  case (1 srv i pending tr)
  show ?case
  proof (cases "i < length pending")
    case False
    with "1.prems" show ?thesis by (simp add: poll_round_end)
  next
    case True
    obtain b tr1 where iv: "is_version_deleted srv (pending ! i) tr = (b, tr1)"
      by (cases "is_version_deleted srv (pending ! i) tr")
    show ?thesis
    proof (cases b)
      case True
      have "\<not> fst (is_version_deleted srv h tr)"
        using "1.prems"(2) by (rule is_version_deleted_never)
      with iv True have "pending ! i \<noteq> h"
        by auto
      with "1.prems"(1) have "h \<in> set (remove1 (pending ! i) pending)" by simp
      from "1.IH"(1) [OF \<open>i < length pending\<close> refl refl iv [symmetric] True this "1.prems"(2)] True
      show ?thesis by (simp add: poll_round_step [OF \<open>i < length pending\<close> iv])
    next
      case False
      from "1.IH"(2) [OF \<open>i < length pending\<close> refl refl iv [symmetric] False "1.prems"] False
      show ?thesis by (simp add: poll_round_step [OF \<open>i < length pending\<close> iv])
    qed
  qed
qed


subsection \<open>The wait\<close>

lemma poll_wait_ext:
  "\<exists>ev. snd (poll_wait srv n pending tr) = tr @ ev \<and> list_all wait_event ev"
proof (induction srv n pending tr rule: poll_wait.induct)
  case (3 srv n d ds tr)
  let ?tr0 = "tr @ [Print [JStr ''Waiting 5s''], Sleep 5]"
  obtain p tr1 where r: "poll_round srv 0 (d # ds) ?tr0 = (p, tr1)"
    by (cases "poll_round srv 0 (d # ds) ?tr0")
  from poll_round_ext [of srv 0 "d # ds" ?tr0] r
  obtain ev1 where ev1: "tr1 = ?tr0 @ ev1" "list_all check_event ev1" by auto
  from "3.IH" [OF r [symmetric] refl]
  obtain ev2 where "snd (poll_wait srv n p tr1) = tr1 @ ev2" "list_all wait_event ev2" by blast
  with ev1 r show ?case by (simp add: check_events_wait)
qed simp_all

lemma poll_wait_outcome:
  "fst (poll_wait srv n pending tr) = Inr () \<or> fst (poll_wait srv n pending tr) = Inl StillWaiting"
  by (induction srv n pending tr rule: poll_wait.induct) (simp_all split: prod.splits)

lemma poll_wait_answered_done:
  "poll_wait srv n pending tr = (Inr (), tr') \<Longrightarrow> h \<in> set pending \<Longrightarrow> answered_done tr' h"
proof (induction srv n pending tr rule: poll_wait.induct)
  case (3 srv n d ds tr)
  let ?tr0 = "tr @ [Print [JStr ''Waiting 5s''], Sleep 5]"
  obtain p tr1 where r: "poll_round srv 0 (d # ds) ?tr0 = (p, tr1)"
    by (cases "poll_round srv 0 (d # ds) ?tr0")
  from "3.prems"(1) r have w: "poll_wait srv n p tr1 = (Inr (), tr')" by simp
  from poll_round_removed_answered_done [OF "3.prems"(2), of srv 0 ?tr0] r
  have "h \<in> set p \<or> answered_done tr1 h" by simp
  then show ?case
  proof
    assume "h \<in> set p"
    from "3.IH" [OF r [symmetric] refl w this] show ?thesis .
  next
    assume c: "answered_done tr1 h"
    from poll_wait_ext [of srv n p tr1] w obtain ev where "tr' = tr1 @ ev" by auto
    with c show ?thesis by (simp add: answered_done_append)
  qed
qed simp_all

lemma poll_wait_never_done:
  "h \<in> set pending \<Longrightarrow> \<forall>t. \<not> has_key (srv t (OperationsGet h)) ''done'' \<Longrightarrow>
     fst (poll_wait srv n pending tr) = Inl StillWaiting
     \<and> sleeps (snd (poll_wait srv n pending tr)) = sleeps tr @ replicate n 5"
proof (induction srv n pending tr rule: poll_wait.induct)
  case (3 srv n d ds tr)
  let ?tr0 = "tr @ [Print [JStr ''Waiting 5s''], Sleep 5]"
  obtain p tr1 where r: "poll_round srv 0 (d # ds) ?tr0 = (p, tr1)"
    by (cases "poll_round srv 0 (d # ds) ?tr0")
  have "h \<in> set (fst (poll_round srv 0 (d # ds) ?tr0))"
    using "3.prems" by (rule poll_round_never_done)
  with r have hp: "h \<in> set p" by simp
  from poll_round_ext [of srv 0 "d # ds" ?tr0] r
  obtain ev1 where ev1: "tr1 = ?tr0 @ ev1" "list_all check_event ev1" by auto
  then have s: "sleeps tr1 = sleeps tr @ [5]"
    by (simp add: sleeps_append check_events_no_sleep)
  from "3.IH" [OF r [symmetric] refl hp "3.prems"(2)] r s show ?case
    by (simp add: replicate_append_same)
qed simp_all

text \<open>More rounds than a wait needed change nothing.\<close>

lemma poll_wait_more_rounds:
  "poll_wait srv n pending tr = (Inr (), tr') \<Longrightarrow> n \<le> m \<Longrightarrow>
     poll_wait srv m pending tr = (Inr (), tr')"
proof (induction srv n pending tr arbitrary: m rule: poll_wait.induct)
  case (3 srv n d ds tr)
  let ?tr0 = "tr @ [Print [JStr ''Waiting 5s''], Sleep 5]"
  obtain p tr1 where r: "poll_round srv 0 (d # ds) ?tr0 = (p, tr1)"
    by (cases "poll_round srv 0 (d # ds) ?tr0")
  from "3.prems"(2) obtain m' where m: "m = Suc m'" "n \<le> m'" by (cases m) auto
  from "3.prems"(1) r have "poll_wait srv n p tr1 = (Inr (), tr')" by simp
  from "3.IH" [OF r [symmetric] refl this m(2)] r m(1) show ?case by simp
qed simp_all

text \<open>
  No answer of these two APIs reports completion.
\<close>

lemma done_false_api_never_reports: "\<not> reports_completion (done_false_api tr req)"
  by (simp add: done_false_api_def reports_completion_def)

lemma done_false_mock_never_reports: "\<not> reports_completion (done_false_mock tr (OperationsGet h))"
  by (simp add: reports_completion_def)

text \<open>
  C5. Claimed: a polling loop ends exactly when its pending list is empty, and never ends
  if a pending operation never reports completion. On the API that answers every poll
  with \<^verbatim>\<open>"done": false\<close> the operation never reports completion, and the wait on it ends
  normally after one round of 5 seconds, with that one poll and no completion reported.
\<close>

theorem wait_ends_on_done_false:
  "fst (poll_wait done_false_api 1 [JStr ''op''] []) = Inr ()
   \<and> sleeps (snd (poll_wait done_false_api 1 [JStr ''op''] [])) = [5]
   \<and> polls (snd (poll_wait done_false_api 1 [JStr ''op''] [])) = [JStr ''op'']
   \<and> reported (snd (poll_wait done_false_api 1 [JStr ''op''] [])) (JStr ''op'') = False"
  by code_simp

text \<open>
  C5, amended. A wait on an empty pending list returns at once. On a non-empty one it
  prints, sleeps 5 seconds, runs one round and goes on with what the round left; it never
  sleeps for another duration. It returns only when, for every handle it was given, a poll
  was answered with the key \<^verbatim>\<open>done\<close>. If the answers to the polls of one pending operation
  never have the key \<^verbatim>\<open>done\<close>, then for every number \<open>n\<close> of rounds the wait has slept
  \<open>n\<close> times 5 seconds and is still waiting.
\<close>

theorem poll_wait_blocks_until_empty:
  "poll_wait srv n [] tr = (Inr (), tr)
   \<and> (pending \<noteq> [] \<longrightarrow>
        poll_wait srv (Suc n) pending tr =
          (case poll_round srv 0 pending (tr @ [Print [JStr ''Waiting 5s''], Sleep 5]) of
             (pending', tr') \<Rightarrow> poll_wait srv n pending' tr'))
   \<and> (\<exists>ev. snd (poll_wait srv n pending tr) = tr @ ev \<and> set (sleeps ev) \<subseteq> {5})
   \<and> (fst (poll_wait srv n pending tr) = Inr () \<longrightarrow>
        (\<forall>h \<in> set pending. answered_done (snd (poll_wait srv n pending tr)) h))
   \<and> (h \<in> set pending \<and> (\<forall>t. \<not> has_key (srv t (OperationsGet h)) ''done'') \<longrightarrow>
        fst (poll_wait srv n pending tr) = Inl StillWaiting
        \<and> sleeps (snd (poll_wait srv n pending tr)) = sleeps tr @ replicate n 5)"
proof (intro conjI impI)
  show "poll_wait srv n [] tr = (Inr (), tr)" by simp
next
  assume "pending \<noteq> []"
  then obtain d ds where "pending = d # ds" by (cases pending) auto
  then show "poll_wait srv (Suc n) pending tr =
          (case poll_round srv 0 pending (tr @ [Print [JStr ''Waiting 5s''], Sleep 5]) of
             (pending', tr') \<Rightarrow> poll_wait srv n pending' tr')" by simp
next
  from poll_wait_ext [of srv n pending tr] wait_events_reading
  show "\<exists>ev. snd (poll_wait srv n pending tr) = tr @ ev \<and> set (sleeps ev) \<subseteq> {5}" by blast
next
  assume "fst (poll_wait srv n pending tr) = Inr ()"
  then have "poll_wait srv n pending tr = (Inr (), snd (poll_wait srv n pending tr))"
    by (metis prod.collapse)
  then show "\<forall>h \<in> set pending. answered_done (snd (poll_wait srv n pending tr)) h"
    using poll_wait_answered_done by blast
next
  assume a: "h \<in> set pending \<and> (\<forall>t. \<not> has_key (srv t (OperationsGet h)) ''done'')"
  then show "fst (poll_wait srv n pending tr) = Inl StillWaiting"
    using poll_wait_never_done by blast
  from a show "sleeps (snd (poll_wait srv n pending tr)) = sleeps tr @ replicate n 5"
    using poll_wait_never_done by blast
qed

theorem poll_wait_blocks_until_empty_witness:
  "[JStr ''op''] \<noteq> []
   \<and> fst (poll_wait (mock_api [] no_versions 2) 3 [JStr ''op''] []) = Inr ()
   \<and> answered_done (snd (poll_wait (mock_api [] no_versions 2) 3 [JStr ''op''] [])) (JStr ''op'')
   \<and> sleeps (snd (poll_wait (mock_api [] no_versions 2) 3 [JStr ''op''] [])) = [5, 5]
   \<and> JStr ''op'' \<in> set [JStr ''op'']
   \<and> (\<forall>t. \<not> has_key (never_done_api t (OperationsGet (JStr ''op''))) ''done'')
   \<and> fst (poll_wait never_done_api 3 [JStr ''op''] []) = Inl StillWaiting
   \<and> sleeps (snd (poll_wait never_done_api 3 [JStr ''op''] [])) = [5, 5, 5]"
proof -
  have run: "fst (poll_wait (mock_api [] no_versions 2) 3 [JStr ''op''] []) = Inr ()"
    by code_simp
  have sl: "sleeps (snd (poll_wait (mock_api [] no_versions 2) 3 [JStr ''op''] [])) = [5, 5]"
    by code_simp
  have never: "\<forall>t. \<not> has_key (never_done_api t (OperationsGet (JStr ''op''))) ''done''"
    by (simp add: never_done_api_def has_key_def)
  from poll_wait_blocks_until_empty
    [of "mock_api [] no_versions 2" 3 "[]" "[JStr ''op'']" "JStr ''op''"] run
  have c: "answered_done (snd (poll_wait (mock_api [] no_versions 2) 3 [JStr ''op''] [])) (JStr ''op'')"
    by simp
  from poll_wait_blocks_until_empty
    [of never_done_api 3 "[]" "[JStr ''op'']" "JStr ''op''"] never
  have "fst (poll_wait never_done_api 3 [JStr ''op''] []) = Inl StillWaiting
     \<and> sleeps (snd (poll_wait never_done_api 3 [JStr ''op''] [])) = [5, 5, 5]"
    by (simp add: numeral_3_eq_3)
  with run sl never c show ?thesis by simp
qed




subsection \<open>Sequencing\<close>

lemma bind_Inl [simp]: "bind (Inl e, tr) f = (Inl e, tr)"
  by (simp add: bind_def)

lemma bind_Inr [simp]: "bind (Inr x, tr) f = f x tr"
  by (simp add: bind_def)

lemma bind_eq_Inr:
  "bind r f = (Inr y, tr') \<Longrightarrow> \<exists>x tr1. r = (Inr x, tr1) \<and> f x tr1 = (Inr y, tr')"
  by (cases r) (auto simp: bind_def split: sum.splits)

lemma bind_ext:
  assumes "\<exists>ev. snd r = tr @ ev \<and> list_all P ev"
    and "\<And>x tr1. \<exists>ev. snd (f x tr1) = tr1 @ ev \<and> list_all P ev"
  shows "\<exists>ev. snd (bind r f) = tr @ ev \<and> list_all P ev"
proof (cases r)
  case (Pair res tr1)
  with assms(1) obtain ev1 where ev1: "tr1 = tr @ ev1" "list_all P ev1" by auto
  show ?thesis
  proof (cases res)
    case (Inl e)
    with Pair ev1 show ?thesis by simp
  next
    case (Inr x)
    from assms(2) [of x tr1] obtain ev2 where "snd (f x tr1) = tr1 @ ev2" "list_all P ev2"
      by blast
    with Pair Inr ev1 show ?thesis by simp
  qed
qed

subsection \<open>Deleting one version, one model\<close>

lemma delete_version_Inr:
  assumes "delete_version srv v tr = (Inr h, tr')"
  shows "\<exists>n r. map_of v ''name'' = Some n
           \<and> r = srv (tr @ [Print [JStr ''Deleting version: '', n]]) (VersionsDelete n)
           \<and> tr' = tr @ [Print [JStr ''Deleting version: '', n], Call (VersionsDelete n) r]
           \<and> map_of r ''name'' = Some h \<and> \<not> has_key r ''error''"
  using assms
  by (auto simp: delete_version_def getitem_def Let_def split: option.splits if_splits)

lemma delete_version_ext:
  "\<exists>ev. snd (delete_version srv v tr) = tr @ ev \<and> list_all version_event ev
      \<and> (\<forall>n \<in> set (version_deletes ev). map_of v ''name'' = Some n)"
  by (auto simp: delete_version_def getitem_def Let_def split: option.splits)

lemma delete_model_ext:
  "\<exists>ev. snd (delete_model srv m tr) = tr @ ev \<and> list_all model_event ev"
  by (auto simp: delete_model_def getitem_def Let_def split: option.splits)

lemma delete_model_Inr:
  assumes "delete_model srv m tr = (Inr u, tr')"
  shows "\<exists>n r. map_of m ''name'' = Some n
           \<and> tr' = tr @ [Print [JStr ''Deleting model: '', n], Call (ModelsDelete n) r]"
  using assms
  by (auto simp: delete_model_def getitem_def Let_def split: option.splits if_splits)

text \<open>An error key in the response of either deletion is a \<open>NameError\<close>, on every input.\<close>

lemma delete_version_error_key:
  "map_of version ''name'' = Some name \<Longrightarrow>
   has_key (srv (tr @ [Print [JStr ''Deleting version: '', name]]) (VersionsDelete name)) ''error'' \<Longrightarrow>
   fst (delete_version srv version tr) = Inl (NameError ''error'')"
  by (simp add: delete_version_def getitem_def Let_def)

lemma delete_model_error_key:
  "map_of model ''name'' = Some name \<Longrightarrow>
   has_key (srv (tr @ [Print [JStr ''Deleting model: '', name]]) (ModelsDelete name)) ''error'' \<Longrightarrow>
   fst (delete_model srv model tr) = Inl (NameError ''error'')"
  by (simp add: delete_model_def getitem_def Let_def)

subsection \<open>The loop over the versions of a model\<close>

lemma non_default_loop_end:
  "\<not> i < length versions \<Longrightarrow>
     non_default_loop srv i versions dip tr = (Inr (versions, dip), tr)"
  by (simp add: non_default_loop.simps)

lemma non_default_loop_skip:
  "i < length versions \<Longrightarrow> has_key (versions ! i) ''isDefault'' \<Longrightarrow>
     non_default_loop srv i versions dip tr = non_default_loop srv (Suc i) versions dip tr"
  by (subst non_default_loop.simps) (simp add: Let_def)

lemma non_default_loop_delete:
  "i < length versions \<Longrightarrow> \<not> has_key (versions ! i) ''isDefault'' \<Longrightarrow>
     non_default_loop srv i versions dip tr =
       bind (delete_version srv (versions ! i) tr) (\<lambda>h tr1.
         non_default_loop srv (Suc i) (remove1 (versions ! i) versions) (dip @ [h]) tr1)"
  by (subst non_default_loop.simps) (simp add: Let_def)

lemma non_default_loop_ext:
  "\<exists>ev. snd (non_default_loop srv i versions dip tr) = tr @ ev \<and> list_all version_event ev"
proof (induction srv i versions dip tr rule: non_default_loop.induct)
  case (1 srv i versions dip tr)
  show ?case
  proof (cases "i < length versions")
    case False
    then show ?thesis by (simp add: non_default_loop_end)
  next
    case True
    show ?thesis
    proof (cases "has_key (versions ! i) ''isDefault''")
      case True
      with "1.IH"(2) [OF \<open>i < length versions\<close> refl] \<open>i < length versions\<close>
      show ?thesis by (simp add: non_default_loop_skip)
    next
      case False
      have "\<exists>ev. snd (bind (delete_version srv (versions ! i) tr) (\<lambda>h tr1.
              non_default_loop srv (Suc i) (remove1 (versions ! i) versions) (dip @ [h]) tr1))
            = tr @ ev \<and> list_all version_event ev"
      proof (rule bind_ext)
        show "\<exists>ev. snd (delete_version srv (versions ! i) tr) = tr @ ev \<and> list_all version_event ev"
          using delete_version_ext by blast
      next
        fix x tr1
        show "\<exists>ev. snd (non_default_loop srv (Suc i) (remove1 (versions ! i) versions)
                 (dip @ [x]) tr1) = tr1 @ ev \<and> list_all version_event ev"
          using "1.IH"(1) [OF \<open>i < length versions\<close> refl False] .
      qed
      with False \<open>i < length versions\<close> show ?thesis by (simp add: non_default_loop_delete)
    qed
  qed
qed

text \<open>The first loop requests the deletion of versions without the key only.\<close>

lemma non_default_loop_deletes:
  "\<exists>ev. snd (non_default_loop srv i versions dip tr) = tr @ ev
      \<and> (\<forall>n \<in> set (version_deletes ev).
            \<exists>v \<in> set versions. \<not> has_key v ''isDefault'' \<and> map_of v ''name'' = Some n)"
proof (induction srv i versions dip tr rule: non_default_loop.induct)
  case (1 srv i versions dip tr)
  show ?case
  proof (cases "i < length versions")
    case False
    then show ?thesis by (simp add: non_default_loop_end)
  next
    case True
    show ?thesis
    proof (cases "has_key (versions ! i) ''isDefault''")
      case True
      with "1.IH"(2) [OF \<open>i < length versions\<close> refl] \<open>i < length versions\<close>
      show ?thesis by (simp add: non_default_loop_skip)
    next
      case False
      let ?v = "versions ! i"
      obtain res tr1 where d: "delete_version srv ?v tr = (res, tr1)"
        by (cases "delete_version srv ?v tr")
      from delete_version_ext [of srv ?v tr] d
      obtain ev1 where ev1: "tr1 = tr @ ev1"
        "\<forall>n \<in> set (version_deletes ev1). map_of ?v ''name'' = Some n" by auto
      have vin: "?v \<in> set versions" using \<open>i < length versions\<close> by simp
      show ?thesis
      proof (cases res)
        case (Inl e)
        with d False \<open>i < length versions\<close> ev1 vin show ?thesis
          by (auto simp: non_default_loop_delete)
      next
        case (Inr h)
        from "1.IH"(1) [OF \<open>i < length versions\<close> refl False, of h tr1]
        obtain ev2 where ev2:
          "snd (non_default_loop srv (Suc i) (remove1 ?v versions) (dip @ [h]) tr1) = tr1 @ ev2"
          "\<forall>n \<in> set (version_deletes ev2).
             \<exists>v \<in> set (remove1 ?v versions). \<not> has_key v ''isDefault'' \<and> map_of v ''name'' = Some n"
          by blast
        have sub: "set (remove1 ?v versions) \<subseteq> set versions" by (rule set_remove1_subset)
        have "\<forall>n \<in> set (version_deletes ev2).
               \<exists>v \<in> set versions. \<not> has_key v ''isDefault'' \<and> map_of v ''name'' = Some n"
          using ev2(2) sub by blast
        moreover have "\<forall>n \<in> set (version_deletes ev1).
               \<exists>v \<in> set versions. \<not> has_key v ''isDefault'' \<and> map_of v ''name'' = Some n"
          using ev1(2) vin False by blast
        ultimately have "\<forall>n \<in> set (version_deletes (ev1 @ ev2)).
               \<exists>v \<in> set versions. \<not> has_key v ''isDefault'' \<and> map_of v ''name'' = Some n"
          by (auto simp: version_deletes_append)
        moreover have "snd (non_default_loop srv i versions dip tr) = tr @ (ev1 @ ev2)"
          using d Inr False \<open>i < length versions\<close> ev1(1) ev2(1)
          by (simp add: non_default_loop_delete)
        ultimately show ?thesis by blast
      qed
    qed
  qed
qed

text \<open>The first loop keeps every version that has the key, in the order of the list.\<close>

lemma filter_remove1_other: "\<not> P x \<Longrightarrow> filter P (remove1 x xs) = filter P xs"
  by (induction xs) auto

lemma non_default_loop_keeps:
  "non_default_loop srv i versions dip tr = (Inr (versions', dip'), tr') \<Longrightarrow>
     filter (\<lambda>v. has_key v ''isDefault'') versions' = filter (\<lambda>v. has_key v ''isDefault'') versions"
proof (induction srv i versions dip tr rule: non_default_loop.induct)
  case (1 srv i versions dip tr)
  show ?case
  proof (cases "i < length versions")
    case False
    with "1.prems" show ?thesis by (simp add: non_default_loop_end)
  next
    case True
    show ?thesis
    proof (cases "has_key (versions ! i) ''isDefault''")
      case True
      with "1.IH"(2) [OF \<open>i < length versions\<close> refl] \<open>i < length versions\<close> "1.prems"
      show ?thesis by (simp add: non_default_loop_skip)
    next
      case False
      from "1.prems" False \<open>i < length versions\<close>
      obtain h tr1 where
        "non_default_loop srv (Suc i) (remove1 (versions ! i) versions) (dip @ [h]) tr1
           = (Inr (versions', dip'), tr')"
        by (auto simp: non_default_loop_delete dest: bind_eq_Inr)
      from "1.IH"(1) [OF \<open>i < length versions\<close> refl False this] False
      show ?thesis by (simp add: filter_remove1_other)
    qed
  qed
qed

text \<open>
  C9. The first loop classifies by the presence of the key \<^verbatim>\<open>isDefault\<close> alone: a visited
  version that has the key, with any value, is passed over, and one without it is removed
  from the list and deleted. So the loop requests deletions only for versions without the
  key, and every version with the key is still in the list when the loop ends.
\<close>

theorem isDefault_key_presence_decides:
  "(i < length versions \<and> has_key (versions ! i) ''isDefault'' \<longrightarrow>
      non_default_loop srv i versions dip tr = non_default_loop srv (Suc i) versions dip tr)
   \<and> (i < length versions \<and> \<not> has_key (versions ! i) ''isDefault'' \<longrightarrow>
      non_default_loop srv i versions dip tr =
        bind (delete_version srv (versions ! i) tr) (\<lambda>h tr1.
          non_default_loop srv (Suc i) (remove1 (versions ! i) versions) (dip @ [h]) tr1))
   \<and> (\<exists>ev. snd (non_default_loop srv i versions dip tr) = tr @ ev
        \<and> (\<forall>n \<in> set (version_deletes ev).
              \<exists>v \<in> set versions. \<not> has_key v ''isDefault'' \<and> map_of v ''name'' = Some n))
   \<and> (\<forall>versions' dip'.
        fst (non_default_loop srv i versions dip tr) = Inr (versions', dip') \<longrightarrow>
        filter (\<lambda>v. has_key v ''isDefault'') versions'
          = filter (\<lambda>v. has_key v ''isDefault'') versions)"
proof (intro conjI impI allI)
  assume "i < length versions \<and> has_key (versions ! i) ''isDefault''"
  then show "non_default_loop srv i versions dip tr = non_default_loop srv (Suc i) versions dip tr"
    by (simp add: non_default_loop_skip)
next
  assume "i < length versions \<and> \<not> has_key (versions ! i) ''isDefault''"
  then show "non_default_loop srv i versions dip tr =
        bind (delete_version srv (versions ! i) tr) (\<lambda>h tr1.
          non_default_loop srv (Suc i) (remove1 (versions ! i) versions) (dip @ [h]) tr1)"
    by (simp add: non_default_loop_delete)
next
  show "\<exists>ev. snd (non_default_loop srv i versions dip tr) = tr @ ev
        \<and> (\<forall>n \<in> set (version_deletes ev).
              \<exists>v \<in> set versions. \<not> has_key v ''isDefault'' \<and> map_of v ''name'' = Some n)"
    by (rule non_default_loop_deletes)
next
  fix versions' dip'
  assume "fst (non_default_loop srv i versions dip tr) = Inr (versions', dip')"
  then have "non_default_loop srv i versions dip tr
      = (Inr (versions', dip'), snd (non_default_loop srv i versions dip tr))"
    by (metis prod.collapse)
  then show "filter (\<lambda>v. has_key v ''isDefault'') versions'
          = filter (\<lambda>v. has_key v ''isDefault'') versions"
    by (rule non_default_loop_keeps)
qed


theorem isDefault_key_presence_decides_witness:
  "fst (non_default_loop (mock_api [cart_model] plain_and_false 1) 0 (plain_and_false JNull) [] [])
     = Inr ([[(''name'', JStr ''v1''), (''isDefault'', JBool False)]],
            [JStr ''operations/delete_v0''])
   \<and> filter (\<lambda>v. has_key v ''isDefault'') [[(''name'', JStr ''v1''), (''isDefault'', JBool False)]]
       = filter (\<lambda>v. has_key v ''isDefault'') (plain_and_false JNull)
   \<and> (\<exists>v \<in> set (plain_and_false JNull).
         \<not> has_key v ''isDefault'' \<and> map_of v ''name'' = Some (JStr ''v0''))
   \<and> Suc 0 < length (plain_and_false JNull)
   \<and> has_key (plain_and_false JNull ! Suc 0) ''isDefault''
   \<and> non_default_loop (mock_api [cart_model] plain_and_false 1) (Suc 0) (plain_and_false JNull) [] []
       = non_default_loop (mock_api [cart_model] plain_and_false 1) (Suc (Suc 0))
           (plain_and_false JNull) [] []
   \<and> \<not> has_key (plain_and_false JNull ! 0) ''isDefault''
   \<and> non_default_loop (mock_api [cart_model] plain_and_false 1) 0 (plain_and_false JNull) [] []
       = bind (delete_version (mock_api [cart_model] plain_and_false 1) (plain_and_false JNull ! 0) [])
           (\<lambda>h tr1. non_default_loop (mock_api [cart_model] plain_and_false 1) (Suc 0)
              (remove1 (plain_and_false JNull ! 0) (plain_and_false JNull)) ([] @ [h]) tr1)"
proof -
  let ?A = "mock_api [cart_model] plain_and_false 1"
  let ?vs = "plain_and_false JNull"
  have r: "fst (non_default_loop ?A 0 ?vs [] [])
     = Inr ([[(''name'', JStr ''v1''), (''isDefault'', JBool False)]],
            [JStr ''operations/delete_v0''])"
    by code_simp
  have d: "version_deletes (snd (non_default_loop ?A 0 ?vs [] [])) = [JStr ''v0'']"
    by code_simp
  have k1: "Suc 0 < length ?vs \<and> has_key (?vs ! Suc 0) ''isDefault''"
    by (simp add: plain_and_false_def has_key_def)
  have k0: "0 < length ?vs \<and> \<not> has_key (?vs ! 0) ''isDefault''"
    by (simp add: plain_and_false_def has_key_def)
  note T0 = isDefault_key_presence_decides
    [where i = 0 and versions = ?vs and srv = ?A and dip = "[]" and tr = "[]"]
  note T1 = isDefault_key_presence_decides
    [where i = "Suc 0" and versions = ?vs and srv = ?A and dip = "[]" and tr = "[]"]
  from T0 r have f: "filter (\<lambda>v. has_key v ''isDefault'')
        [[(''name'', JStr ''v1''), (''isDefault'', JBool False)]]
       = filter (\<lambda>v. has_key v ''isDefault'') ?vs"
    by blast
  from T0 d have e: "\<exists>v \<in> set ?vs. \<not> has_key v ''isDefault'' \<and> map_of v ''name'' = Some (JStr ''v0'')"
    by auto
  from T1 k1 have s: "non_default_loop ?A (Suc 0) ?vs [] [] = non_default_loop ?A (Suc (Suc 0)) ?vs [] []"
    by blast
  from T0 k0 have b: "non_default_loop ?A 0 ?vs [] []
       = bind (delete_version ?A (?vs ! 0) [])
           (\<lambda>h tr1. non_default_loop ?A (Suc 0) (remove1 (?vs ! 0) ?vs) ([] @ [h]) tr1)"
    by blast
  from r f e k1 s k0 b show ?thesis by blast
qed




subsection \<open>Listing\<close>

lemma get_models_trace:
  "snd (get_models srv project tr) =
     tr @ [Call (ModelsList (''projects/'' @ project)) (srv tr (ModelsList (''projects/'' @ project)))]"
  by (simp add: get_models_def Let_def getitem_def split: option.splits)

lemma get_versions_trace:
  "snd (get_versions srv m tr) = tr @ [Call (VersionsList m) (srv tr (VersionsList m))]"
  by (simp add: get_versions_def Let_def getitem_def split: option.splits)

lemma get_models_KeyError:
  "\<not> has_key (srv tr (ModelsList (''projects/'' @ project))) ''models'' \<Longrightarrow>
     fst (get_models srv project tr) = Inl (KeyError ''models'')"
  by (simp add: get_models_def Let_def getitem_def has_key_def)

lemma get_versions_KeyError:
  "\<not> has_key (srv tr (VersionsList m)) ''versions'' \<Longrightarrow>
     fst (get_versions srv m tr) = Inl (KeyError ''versions'')"
  by (simp add: get_versions_def Let_def getitem_def has_key_def)

subsection \<open>Events before the models are deleted\<close>

lemma version_events_early:
  "list_all version_event ev \<Longrightarrow> list_all (\<lambda>e. \<not> is_model_delete e) ev"
  by (simp add: version_events_reading)

lemma wait_events_early:
  "list_all wait_event ev \<Longrightarrow> list_all (\<lambda>e. \<not> is_model_delete e) ev"
  by (simp add: wait_events_reading)

lemma delete_version_early:
  "\<exists>ev. snd (delete_version srv v tr) = tr @ ev \<and> list_all (\<lambda>e. \<not> is_model_delete e) ev"
  using delete_version_ext [of srv v tr] version_events_early by blast

lemma non_default_loop_early:
  "\<exists>ev. snd (non_default_loop srv i vs dip tr) = tr @ ev \<and> list_all (\<lambda>e. \<not> is_model_delete e) ev"
  using non_default_loop_ext [of srv i vs dip tr] version_events_early by blast

lemma poll_wait_early:
  "\<exists>ev. snd (poll_wait srv n p tr) = tr @ ev \<and> list_all (\<lambda>e. \<not> is_model_delete e) ev"
  using poll_wait_ext [of srv n p tr] wait_events_early by blast

lemma get_versions_early:
  "\<exists>ev. snd (get_versions srv m (tr @ [Print p])) = tr @ ev \<and> list_all (\<lambda>e. \<not> is_model_delete e) ev"
  by (simp add: get_versions_trace)

lemma model_body_early:
  "\<exists>ev. snd (model_body srv n m tr) = tr @ ev \<and> list_all (\<lambda>e. \<not> is_model_delete e) ev"
  unfolding model_body_def
proof (rule bind_ext)
  show "\<exists>ev. snd (getitem m ''name'', tr) = tr @ ev \<and> list_all (\<lambda>e. \<not> is_model_delete e) ev"
    by simp
next
  fix name tr0
  show "\<exists>ev. snd (bind (get_versions srv name (tr0 @ [Print [JStr ''Model: '', name]]))
          (\<lambda>versions tr1. bind (non_default_loop srv 0 versions [] tr1)
            (\<lambda>(versions', deletions_in_progress) tr2.
               bind (poll_wait srv n deletions_in_progress tr2)
                 (\<lambda>_ tr3. bind (first_version versions', tr3) (delete_version srv))))) = tr0 @ ev
        \<and> list_all (\<lambda>e. \<not> is_model_delete e) ev"
  proof (rule bind_ext)
    show "\<exists>ev. snd (get_versions srv name (tr0 @ [Print [JStr ''Model: '', name]])) = tr0 @ ev
        \<and> list_all (\<lambda>e. \<not> is_model_delete e) ev"
      by (rule get_versions_early)
  next
    fix versions tr1
    show "\<exists>ev. snd (bind (non_default_loop srv 0 versions [] tr1)
            (\<lambda>(versions', deletions_in_progress) tr2.
               bind (poll_wait srv n deletions_in_progress tr2)
                 (\<lambda>_ tr3. bind (first_version versions', tr3) (delete_version srv)))) = tr1 @ ev
        \<and> list_all (\<lambda>e. \<not> is_model_delete e) ev"
    proof (rule bind_ext)
      show "\<exists>ev. snd (non_default_loop srv 0 versions [] tr1) = tr1 @ ev
          \<and> list_all (\<lambda>e. \<not> is_model_delete e) ev"
        by (rule non_default_loop_early)
    next
      fix x :: "dict list \<times> json list" and tr2
      obtain versions' dip where x: "x = (versions', dip)" by (cases x)
      have "\<exists>ev. snd (bind (poll_wait srv n dip tr2)
                 (\<lambda>_ tr3. bind (first_version versions', tr3) (delete_version srv))) = tr2 @ ev
          \<and> list_all (\<lambda>e. \<not> is_model_delete e) ev"
      proof (rule bind_ext)
        show "\<exists>ev. snd (poll_wait srv n dip tr2) = tr2 @ ev \<and> list_all (\<lambda>e. \<not> is_model_delete e) ev"
          by (rule poll_wait_early)
      next
        fix u :: unit and tr3
        show "\<exists>ev. snd (bind (first_version versions', tr3) (delete_version srv)) = tr3 @ ev
            \<and> list_all (\<lambda>e. \<not> is_model_delete e) ev"
        proof (rule bind_ext)
          show "\<exists>ev. snd (first_version versions', tr3) = tr3 @ ev
              \<and> list_all (\<lambda>e. \<not> is_model_delete e) ev" by simp
        next
          fix v tr4
          show "\<exists>ev. snd (delete_version srv v tr4) = tr4 @ ev
              \<and> list_all (\<lambda>e. \<not> is_model_delete e) ev"
            by (rule delete_version_early)
        qed
      qed
      with x show "\<exists>ev. snd ((case x of (versions', deletions_in_progress) \<Rightarrow> \<lambda>tr2.
               bind (poll_wait srv n deletions_in_progress tr2)
                 (\<lambda>_ tr3. bind (first_version versions', tr3) (delete_version srv))) tr2) = tr2 @ ev
          \<and> list_all (\<lambda>e. \<not> is_model_delete e) ev"
        by simp
    qed
  qed
qed

lemma models_loop_early:
  "\<exists>ev. snd (models_loop srv n ms dd tr) = tr @ ev \<and> list_all (\<lambda>e. \<not> is_model_delete e) ev"
proof (induction ms arbitrary: dd tr)
  case Nil
  show ?case by simp
next
  case (Cons m ms)
  have "\<exists>ev. snd (bind (model_body srv n m tr) (\<lambda>h tr1. models_loop srv n ms (dd @ [h]) tr1))
          = tr @ ev \<and> list_all (\<lambda>e. \<not> is_model_delete e) ev"
    by (rule bind_ext) (rule model_body_early, rule Cons.IH)
  then show ?case by simp
qed

lemma delete_models_ext:
  "\<exists>ev. snd (delete_models srv ms tr) = tr @ ev \<and> list_all model_event ev"
proof (induction ms arbitrary: tr)
  case Nil
  show ?case by simp
next
  case (Cons m ms)
  have "\<exists>ev. snd (bind (delete_model srv m tr) (\<lambda>_ tr1. delete_models srv ms tr1))
          = tr @ ev \<and> list_all model_event ev"
    by (rule bind_ext) (rule delete_model_ext, rule Cons.IH)
  then show ?case by simp
qed


subsection \<open>The stages of the sweep\<close>

lemma get_models_early:
  "list_all (\<lambda>e. \<not> is_model_delete e) (snd (get_models srv project []))"
  by (simp add: get_models_trace)

lemma sweep_stages:
  "(\<exists>ms tr1 dd tr2 tr3.
       get_models srv project [] = (Inr ms, tr1) \<and> models_loop srv n ms [] tr1 = (Inr dd, tr2)
       \<and> poll_wait srv n dd tr2 = (Inr (), tr3) \<and> list_all (\<lambda>e. \<not> is_model_delete e) tr3
       \<and> sweep srv n project = delete_models srv ms tr3)
   \<or> (\<exists>e. fst (sweep srv n project) = Inl e)
      \<and> list_all (\<lambda>e. \<not> is_model_delete e) (snd (sweep srv n project))"
proof -
  obtain r1 tr1 where g: "get_models srv project [] = (r1, tr1)"
    by (cases "get_models srv project []")
  from get_models_early [of srv project] g have e1: "list_all (\<lambda>e. \<not> is_model_delete e) tr1"
    by simp
  show ?thesis
  proof (cases r1)
    case (Inl e)
    with g e1 show ?thesis by (simp add: sweep_def)
  next
    case ms: (Inr ms)
    obtain r2 tr2 where l: "models_loop srv n ms [] tr1 = (r2, tr2)"
      by (cases "models_loop srv n ms [] tr1")
    from models_loop_early [of srv n ms "[]" tr1] l e1
    have e2: "list_all (\<lambda>e. \<not> is_model_delete e) tr2" by auto
    show ?thesis
    proof (cases r2)
      case (Inl e)
      with g ms l e2 show ?thesis by (simp add: sweep_def)
    next
      case dd: (Inr dd)
      obtain r3 tr3 where w: "poll_wait srv n dd tr2 = (r3, tr3)"
        by (cases "poll_wait srv n dd tr2")
      from poll_wait_early [of srv n dd tr2] w e2
      have e3: "list_all (\<lambda>e. \<not> is_model_delete e) tr3" by auto
      show ?thesis
      proof (cases r3)
        case (Inl e)
        with g ms l dd w e3 show ?thesis by (simp add: sweep_def)
      next
        case (Inr u)
        with g ms l dd w e3 show ?thesis by (simp add: sweep_def)
      qed
    qed
  qed
qed

lemma list_all_dropWhile: "list_all P xs \<Longrightarrow> list_all P (dropWhile Q xs)"
  by (induction xs) auto

lemma dropWhile_all: "list_all P xs \<Longrightarrow> dropWhile P (xs @ ys) = dropWhile P ys"
  by (induction xs) auto

lemma takeWhile_all: "list_all P xs \<Longrightarrow> takeWhile P (xs @ ys) = xs @ takeWhile P ys"
  by (induction xs) auto

text \<open>From the first model deletion on, the sweep prints and deletes models only.\<close>

lemma sweep_tail_model_events:
  "list_all model_event (dropWhile (\<lambda>e. \<not> is_model_delete e) (snd (sweep srv n project)))"
  using sweep_stages [of srv project n]
proof
  assume "\<exists>ms tr1 dd tr2 tr3.
       get_models srv project [] = (Inr ms, tr1) \<and> models_loop srv n ms [] tr1 = (Inr dd, tr2)
       \<and> poll_wait srv n dd tr2 = (Inr (), tr3) \<and> list_all (\<lambda>e. \<not> is_model_delete e) tr3
       \<and> sweep srv n project = delete_models srv ms tr3"
  then obtain ms tr3 where e3: "list_all (\<lambda>e. \<not> is_model_delete e) tr3"
    and s: "sweep srv n project = delete_models srv ms tr3" by blast
  from delete_models_ext [of srv ms tr3] obtain ev
    where ev: "snd (delete_models srv ms tr3) = tr3 @ ev" "list_all model_event ev" by blast
  with s e3 show ?thesis by (simp add: dropWhile_all list_all_dropWhile)
next
  assume "(\<exists>e. fst (sweep srv n project) = Inl e)
      \<and> list_all (\<lambda>e. \<not> is_model_delete e) (snd (sweep srv n project))"
  then have eq: "dropWhile (\<lambda>e. \<not> is_model_delete e) (snd (sweep srv n project)) = []"
    by (simp add: list_all_iff dropWhile_eq_Nil_conv)
  show ?thesis unfolding eq by simp
qed

text \<open>
  C8. \<open>delete_version\<close> returns the \<^verbatim>\<open>name\<close> field of the delete response, the handle of
  the operation (when the version has a name and the response has the field and no error
  key). \<open>delete_model\<close> returns the unit value and leaves the response in the trace only;
  it polls nothing, and from the first model deletion on the sweep issues no get-operation
  request: the operations of the model deletions are never polled.
\<close>

theorem delete_version_returns_handle_delete_model_unpolled:
  "(map_of version ''name'' = Some name
      \<and> map_of (srv (tr @ [Print [JStr ''Deleting version: '', name]]) (VersionsDelete name)) ''name''
          = Some h
      \<and> \<not> has_key (srv (tr @ [Print [JStr ''Deleting version: '', name]]) (VersionsDelete name))
            ''error''
      \<longrightarrow> fst (delete_version srv version tr) = Inr h)
   \<and> (map_of model ''name'' = Some mname
      \<and> \<not> has_key (srv (tr @ [Print [JStr ''Deleting model: '', mname]]) (ModelsDelete mname))
            ''error''
      \<longrightarrow> delete_model srv model tr =
           (Inr (), tr @ [Print [JStr ''Deleting model: '', mname],
                          Call (ModelsDelete mname)
                            (srv (tr @ [Print [JStr ''Deleting model: '', mname]])
                               (ModelsDelete mname))]))
   \<and> polls (snd (delete_model srv model tr)) = polls tr
   \<and> polls (dropWhile (\<lambda>e. \<not> is_model_delete e) (snd (sweep srv n project))) = []"
proof (intro conjI impI)
  assume "map_of version ''name'' = Some name
      \<and> map_of (srv (tr @ [Print [JStr ''Deleting version: '', name]]) (VersionsDelete name)) ''name''
          = Some h
      \<and> \<not> has_key (srv (tr @ [Print [JStr ''Deleting version: '', name]]) (VersionsDelete name))
            ''error''"
  then show "fst (delete_version srv version tr) = Inr h"
    by (simp add: delete_version_def getitem_def Let_def)
next
  assume "map_of model ''name'' = Some mname
      \<and> \<not> has_key (srv (tr @ [Print [JStr ''Deleting model: '', mname]]) (ModelsDelete mname))
            ''error''"
  then show "delete_model srv model tr =
           (Inr (), tr @ [Print [JStr ''Deleting model: '', mname],
                          Call (ModelsDelete mname)
                            (srv (tr @ [Print [JStr ''Deleting model: '', mname]])
                               (ModelsDelete mname))])"
    by (simp add: delete_model_def getitem_def Let_def)
next
  from delete_model_ext [of srv model tr] model_events_reading
  show "polls (snd (delete_model srv model tr)) = polls tr"
    by (auto simp: polls_append)
next
  from sweep_tail_model_events [of srv n project] model_events_reading
  show "polls (dropWhile (\<lambda>e. \<not> is_model_delete e) (snd (sweep srv n project))) = []"
    by blast
qed

theorem delete_version_returns_handle_delete_model_unpolled_witness:
  "map_of v1_default ''name'' = Some (JStr ''v1'')
   \<and> map_of (mock_api [cart_model] only_default 1 ([] @ [Print [JStr ''Deleting version: '', JStr ''v1'']])
               (VersionsDelete (JStr ''v1''))) ''name'' = Some (JStr ''operations/delete_v1'')
   \<and> \<not> has_key (mock_api [cart_model] only_default 1 ([] @ [Print [JStr ''Deleting version: '', JStr ''v1'']])
               (VersionsDelete (JStr ''v1''))) ''error''
   \<and> fst (delete_version (mock_api [cart_model] only_default 1) v1_default [])
       = Inr (JStr ''operations/delete_v1'')
   \<and> map_of cart_model ''name'' = Some (JStr ''clf_add_to_cart'')
   \<and> \<not> has_key (mock_api [cart_model] only_default 1
                  ([] @ [Print [JStr ''Deleting model: '', JStr ''clf_add_to_cart'']])
                  (ModelsDelete (JStr ''clf_add_to_cart''))) ''error''
   \<and> fst (delete_model (mock_api [cart_model] only_default 1) cart_model []) = Inr ()
   \<and> model_deletes (snd (sweep (mock_api [cart_model] only_default 1) 3 ''p'')) \<noteq> []
   \<and> polls (dropWhile (\<lambda>e. \<not> is_model_delete e)
               (snd (sweep (mock_api [cart_model] only_default 1) 3 ''p''))) = []"
proof -
  let ?A = "mock_api [cart_model] only_default 1"
  have a: "map_of v1_default ''name'' = Some (JStr ''v1'')
   \<and> map_of (?A ([] @ [Print [JStr ''Deleting version: '', JStr ''v1'']])
               (VersionsDelete (JStr ''v1''))) ''name'' = Some (JStr ''operations/delete_v1'')
   \<and> \<not> has_key (?A ([] @ [Print [JStr ''Deleting version: '', JStr ''v1'']])
               (VersionsDelete (JStr ''v1''))) ''error''"
    by (simp add: v1_default_def has_key_def)
  have b: "map_of cart_model ''name'' = Some (JStr ''clf_add_to_cart'')
   \<and> \<not> has_key (?A ([] @ [Print [JStr ''Deleting model: '', JStr ''clf_add_to_cart'']])
                  (ModelsDelete (JStr ''clf_add_to_cart''))) ''error''"
    by (simp add: cart_model_def has_key_def)
  have d: "model_deletes (snd (sweep ?A 3 ''p'')) \<noteq> []" by code_simp
  note T = delete_version_returns_handle_delete_model_unpolled
    [where version = v1_default and name = "JStr ''v1''" and srv = ?A and tr = "[]"
       and h = "JStr ''operations/delete_v1''" and model = cart_model and n = 3 and project = "''p''"
       and mname = "JStr ''clf_add_to_cart''"]
  from T a have "fst (delete_version ?A v1_default []) = Inr (JStr ''operations/delete_v1'')"
    by blast
  moreover from T have "polls (dropWhile (\<lambda>e. \<not> is_model_delete e) (snd (sweep ?A 3 ''p''))) = []"
    by blast
  moreover from T b have "fst (delete_model ?A cart_model []) = Inr ()"
    by simp
  ultimately show ?thesis using a b d by blast
qed


text \<open>
  C10. A models response without the key \<^verbatim>\<open>models\<close> ends the sweep with a \<open>KeyError\<close>
  after that one request. A versions response without the key \<^verbatim>\<open>versions\<close> ends the
  body of the loop over the models with a \<open>KeyError\<close>, and when the first loop has left no
  version and the wait has returned, \<^verbatim>\<open>versions[0]\<close> ends it with an \<open>IndexError\<close>. An
  exception of the body for one model ends the loop over the models, after the models
  before it, and an exception of that loop ends the sweep.
\<close>

theorem missing_key_or_version_raises:
  "(\<not> has_key (srv [] (ModelsList (''projects/'' @ project))) ''models'' \<longrightarrow>
      sweep srv n project =
        (Inl (KeyError ''models''),
         [Call (ModelsList (''projects/'' @ project)) (srv [] (ModelsList (''projects/'' @ project)))]))
   \<and> (map_of model ''name'' = Some name
       \<and> \<not> has_key (srv (tr @ [Print [JStr ''Model: '', name]]) (VersionsList name)) ''versions'' \<longrightarrow>
      model_body srv n model tr =
        (Inl (KeyError ''versions''),
         tr @ [Print [JStr ''Model: '', name],
               Call (VersionsList name) (srv (tr @ [Print [JStr ''Model: '', name]]) (VersionsList name))]))
   \<and> (map_of model ''name'' = Some name
       \<and> get_versions srv name (tr @ [Print [JStr ''Model: '', name]]) = (Inr versions, tr1)
       \<and> non_default_loop srv 0 versions [] tr1 = (Inr ([], dip), tr2)
       \<and> poll_wait srv n dip tr2 = (Inr (), tr3) \<longrightarrow>
      model_body srv n model tr = (Inl IndexError, tr3))
   \<and> (model_body srv n model tr = (Inl e, tr') \<longrightarrow>
      models_loop srv n (model # models) dd tr = (Inl e, tr'))
   \<and> (model_body srv n model tr = (Inr h, tr') \<longrightarrow>
      models_loop srv n (model # models) dd tr = models_loop srv n models (dd @ [h]) tr')
   \<and> (get_models srv project [] = (Inr ms, tr0) \<and> models_loop srv n ms [] tr0 = (Inl e, tr') \<longrightarrow>
      sweep srv n project = (Inl e, tr'))"
proof (intro conjI impI)
  assume "\<not> has_key (srv [] (ModelsList (''projects/'' @ project))) ''models''"
  then show "sweep srv n project =
        (Inl (KeyError ''models''),
         [Call (ModelsList (''projects/'' @ project)) (srv [] (ModelsList (''projects/'' @ project)))])"
    by (simp add: sweep_def get_models_def Let_def getitem_def has_key_def)
next
  assume "map_of model ''name'' = Some name
       \<and> \<not> has_key (srv (tr @ [Print [JStr ''Model: '', name]]) (VersionsList name)) ''versions''"
  then show "model_body srv n model tr =
        (Inl (KeyError ''versions''),
         tr @ [Print [JStr ''Model: '', name],
               Call (VersionsList name) (srv (tr @ [Print [JStr ''Model: '', name]]) (VersionsList name))])"
    by (simp add: model_body_def get_versions_def Let_def getitem_def has_key_def)
next
  assume "map_of model ''name'' = Some name
       \<and> get_versions srv name (tr @ [Print [JStr ''Model: '', name]]) = (Inr versions, tr1)
       \<and> non_default_loop srv 0 versions [] tr1 = (Inr ([], dip), tr2)
       \<and> poll_wait srv n dip tr2 = (Inr (), tr3)"
  then show "model_body srv n model tr = (Inl IndexError, tr3)"
    by (simp add: model_body_def getitem_def first_version_def)
next
  assume "model_body srv n model tr = (Inl e, tr')"
  then show "models_loop srv n (model # models) dd tr = (Inl e, tr')" by simp
next
  assume "model_body srv n model tr = (Inr h, tr')"
  then show "models_loop srv n (model # models) dd tr = models_loop srv n models (dd @ [h]) tr'"
    by simp
next
  assume "get_models srv project [] = (Inr ms, tr0) \<and> models_loop srv n ms [] tr0 = (Inl e, tr')"
  then show "sweep srv n project = (Inl e, tr')" by (simp add: sweep_def)
qed

theorem missing_key_or_version_raises_witness:
  "\<not> has_key (never_done_api [] (ModelsList (''projects/'' @ ''p''))) ''models''
   \<and> fst (sweep never_done_api 3 ''p'') = Inl (KeyError ''models'')
   \<and> map_of cart_model ''name'' = Some (JStr ''clf_add_to_cart'')
   \<and> \<not> has_key (no_versions_key_api
                  (snd (get_models no_versions_key_api ''p'' [])
                     @ [Print [JStr ''Model: '', JStr ''clf_add_to_cart'']])
                  (VersionsList (JStr ''clf_add_to_cart''))) ''versions''
   \<and> fst (get_models no_versions_key_api ''p'' []) = Inr [cart_model]
   \<and> fst (sweep no_versions_key_api 3 ''p'') = Inl (KeyError ''versions'')
   \<and> fst (get_versions (mock_api [cart_model] single_plain 1) (JStr ''clf_add_to_cart'')
            ([] @ [Print [JStr ''Model: '', JStr ''clf_add_to_cart'']])) = Inr (single_plain JNull)
   \<and> fst (model_body (mock_api [cart_model] single_plain 1) 3 cart_model []) = Inl IndexError"
proof -
  let ?B = no_versions_key_api
  let ?A = "mock_api [cart_model] single_plain 1"
  let ?c = "JStr ''clf_add_to_cart''"
  have k1: "\<not> has_key (never_done_api [] (ModelsList (''projects/'' @ ''p''))) ''models''"
    by (simp add: never_done_api_def has_key_def)
  from missing_key_or_version_raises [where srv = never_done_api and project = "''p''" and n = 3] k1
  have s1: "fst (sweep never_done_api 3 ''p'') = Inl (KeyError ''models'')"
    by simp
  let ?tr0 = "snd (get_models ?B ''p'' [])"
  have n: "map_of cart_model ''name'' = Some ?c" by (simp add: cart_model_def)
  have k2: "\<not> has_key (?B (?tr0 @ [Print [JStr ''Model: '', ?c]]) (VersionsList ?c)) ''versions''"
    by (simp add: has_key_def)
  have g: "fst (get_models ?B ''p'' []) = Inr [cart_model]" by code_simp
  then have g': "get_models ?B ''p'' [] = (Inr [cart_model], ?tr0)" by (metis prod.collapse)
  note T = missing_key_or_version_raises
    [where srv = ?B and project = "''p''" and n = 3 and model = cart_model and name = ?c
       and tr = ?tr0 and ms = "[cart_model]" and tr0 = ?tr0 and models = "[]" and dd = "[]"
       and e = "KeyError ''versions''"
       and tr' = "?tr0 @ [Print [JStr ''Model: '', ?c],
                          Call (VersionsList ?c) (?B (?tr0 @ [Print [JStr ''Model: '', ?c]]) (VersionsList ?c))]"]
  from T n k2 have "model_body ?B 3 cart_model ?tr0 =
        (Inl (KeyError ''versions''),
         ?tr0 @ [Print [JStr ''Model: '', ?c],
                 Call (VersionsList ?c) (?B (?tr0 @ [Print [JStr ''Model: '', ?c]]) (VersionsList ?c))])"
    by blast
  with T have "models_loop ?B 3 [cart_model] [] ?tr0 =
        (Inl (KeyError ''versions''),
         ?tr0 @ [Print [JStr ''Model: '', ?c],
                 Call (VersionsList ?c) (?B (?tr0 @ [Print [JStr ''Model: '', ?c]]) (VersionsList ?c))])"
    by blast
  with T g' have s2: "fst (sweep ?B 3 ''p'') = Inl (KeyError ''versions'')"
    by simp
  let ?t0 = "[] @ [Print [JStr ''Model: '', ?c]]"
  let ?t1 = "snd (get_versions ?A ?c ?t0)"
  let ?t2 = "snd (non_default_loop ?A 0 (single_plain JNull) [] ?t1)"
  let ?d = "[JStr ''operations/delete_v1'']"
  let ?t3 = "snd (poll_wait ?A 3 ?d ?t2)"
  have v: "fst (get_versions ?A ?c ?t0) = Inr (single_plain JNull)" by code_simp
  then have v': "get_versions ?A ?c ?t0 = (Inr (single_plain JNull), ?t1)" by (metis prod.collapse)
  have l: "fst (non_default_loop ?A 0 (single_plain JNull) [] ?t1) = Inr ([], ?d)" by code_simp
  then have l': "non_default_loop ?A 0 (single_plain JNull) [] ?t1 = (Inr ([], ?d), ?t2)"
    by (metis prod.collapse)
  have w: "fst (poll_wait ?A 3 ?d ?t2) = Inr ()" by code_simp
  then have w': "poll_wait ?A 3 ?d ?t2 = (Inr (), ?t3)" by (metis prod.collapse)
  from missing_key_or_version_raises
    [where srv = ?A and n = 3 and model = cart_model and name = ?c and tr = "[]"
       and versions = "single_plain JNull" and ?tr1.0 = ?t1 and dip = ?d and ?tr2.0 = ?t2
       and ?tr3.0 = ?t3] n v' l' w'
  have s3: "fst (model_body ?A 3 cart_model []) = Inl IndexError"
    by simp
  from k1 s1 n k2 g s2 v s3 show ?thesis by blast
qed


subsection \<open>One model with its default version only\<close>

lemma bind_unit: "bind r (\<lambda>u tr. (Inr (), tr)) = (r :: (error + unit) \<times> trace)"
  by (cases r) (auto simp: bind_def split: sum.splits)

lemma delete_models_single: "delete_models srv [m] tr = delete_model srv m tr"
proof -
  have "delete_models srv [] = (\<lambda>tr. (Inr (), tr))" by (rule ext) simp
  then show ?thesis by (simp add: bind_unit)
qed

lemma non_default_loop_only_default:
  "non_default_loop srv 0 [v1_default] [] tr = (Inr ([v1_default], []), tr)"
proof -
  have k: "has_key v1_default ''isDefault''" by (simp add: v1_default_def has_key_def)
  have "non_default_loop srv 0 [v1_default] [] tr = non_default_loop srv (Suc 0) [v1_default] [] tr"
    by (rule non_default_loop_skip) (simp_all add: k)
  then show ?thesis by (simp add: non_default_loop_end)
qed

lemma delete_version_v1:
  "snd (delete_version srv v1_default tr) =
     tr @ [Print [JStr ''Deleting version: '', JStr ''v1''],
           Call (VersionsDelete (JStr ''v1''))
             (srv (tr @ [Print [JStr ''Deleting version: '', JStr ''v1'']]) (VersionsDelete (JStr ''v1'')))]"
  by (simp add: delete_version_def v1_default_def getitem_def Let_def)

lemma single_default_program:
  assumes "map_of (srv [] (ModelsList (''projects/'' @ project))) ''models''
             = Some (JArr [JObj cart_model])"
    and "map_of (srv [Call (ModelsList (''projects/'' @ project))
                        (srv [] (ModelsList (''projects/'' @ project))),
                      Print [JStr ''Model: '', JStr ''clf_add_to_cart'']]
                   (VersionsList (JStr ''clf_add_to_cart''))) ''versions''
             = Some (JArr [JObj v1_default])"
  shows "sweep srv n project =
     bind (delete_version srv v1_default
             [Call (ModelsList (''projects/'' @ project)) (srv [] (ModelsList (''projects/'' @ project))),
              Print [JStr ''Model: '', JStr ''clf_add_to_cart''],
              Call (VersionsList (JStr ''clf_add_to_cart''))
                (srv [Call (ModelsList (''projects/'' @ project))
                        (srv [] (ModelsList (''projects/'' @ project))),
                      Print [JStr ''Model: '', JStr ''clf_add_to_cart'']]
                   (VersionsList (JStr ''clf_add_to_cart'')))])
       (\<lambda>h tr3. bind (poll_wait srv n [h] tr3) (\<lambda>u tr4. delete_model srv cart_model tr4))"
proof -
  let ?r1 = "srv [] (ModelsList (''projects/'' @ project))"
  let ?tr1 = "[Call (ModelsList (''projects/'' @ project)) ?r1]"
  have g: "get_models srv project [] = (Inr [cart_model], ?tr1)"
    using assms(1) by (simp add: get_models_def Let_def getitem_def as_dicts_def)
  let ?p = "Print [JStr ''Model: '', JStr ''clf_add_to_cart'']"
  let ?r2 = "srv (?tr1 @ [?p]) (VersionsList (JStr ''clf_add_to_cart''))"
  let ?tr2 = "?tr1 @ [?p, Call (VersionsList (JStr ''clf_add_to_cart'')) ?r2]"
  have v: "get_versions srv (JStr ''clf_add_to_cart'') (?tr1 @ [?p]) = (Inr [v1_default], ?tr2)"
    using assms(2) by (simp add: get_versions_def Let_def getitem_def as_dicts_def)
  have b: "model_body srv n cart_model ?tr1 = delete_version srv v1_default ?tr2"
    unfolding model_body_def
    by (simp add: getitem_def cart_model_def v [simplified] non_default_loop_only_default
        first_version_def)
  show ?thesis
    unfolding sweep_def g
    by (simp add: b [simplified] bind_def delete_models_single split: prod.splits sum.splits)
qed


text \<open>
  C7. When the API lists the one model \<^verbatim>\<open>clf_add_to_cart\<close> and, for it, the one version
  \<^verbatim>\<open>{"name": "v1", "isDefault": true}\<close>, the sweep requests no deletion in the first loop
  and does not wait there: right after listing the versions it requests the deletion of
  \<open>v1\<close>, which is the only version deletion of the run. A run that ends normally then has
  waited for that deletion and ends with the deletion of the model.
\<close>

theorem single_default_version_sweep:
  assumes "map_of (srv [] (ModelsList (''projects/'' @ project))) ''models''
             = Some (JArr [JObj cart_model])"
    and "map_of (srv [Call (ModelsList (''projects/'' @ project))
                        (srv [] (ModelsList (''projects/'' @ project))),
                      Print [JStr ''Model: '', JStr ''clf_add_to_cart'']]
                   (VersionsList (JStr ''clf_add_to_cart''))) ''versions''
             = Some (JArr [JObj v1_default])"
  shows "\<exists>r1 r2 r3 rest.
     snd (sweep srv n project) =
       [Call (ModelsList (''projects/'' @ project)) r1,
        Print [JStr ''Model: '', JStr ''clf_add_to_cart''],
        Call (VersionsList (JStr ''clf_add_to_cart'')) r2,
        Print [JStr ''Deleting version: '', JStr ''v1''],
        Call (VersionsDelete (JStr ''v1'')) r3] @ rest
     \<and> version_deletes rest = []
     \<and> (fst (sweep srv n project) = Inr () \<longrightarrow>
          (\<exists>mid r4. rest = mid @ [Print [JStr ''Deleting model: '', JStr ''clf_add_to_cart''],
                                  Call (ModelsDelete (JStr ''clf_add_to_cart'')) r4]
             \<and> list_all wait_event mid))"
proof -
  let ?r1 = "srv [] (ModelsList (''projects/'' @ project))"
  let ?r2 = "srv [Call (ModelsList (''projects/'' @ project)) ?r1,
                  Print [JStr ''Model: '', JStr ''clf_add_to_cart'']]
               (VersionsList (JStr ''clf_add_to_cart''))"
  let ?tr2 = "[Call (ModelsList (''projects/'' @ project)) ?r1,
               Print [JStr ''Model: '', JStr ''clf_add_to_cart''],
               Call (VersionsList (JStr ''clf_add_to_cart'')) ?r2]"
  let ?r3 = "srv (?tr2 @ [Print [JStr ''Deleting version: '', JStr ''v1'']])
               (VersionsDelete (JStr ''v1''))"
  let ?tr3 = "?tr2 @ [Print [JStr ''Deleting version: '', JStr ''v1''],
                      Call (VersionsDelete (JStr ''v1'')) ?r3]"
  let ?five = "[Call (ModelsList (''projects/'' @ project)) ?r1,
        Print [JStr ''Model: '', JStr ''clf_add_to_cart''],
        Call (VersionsList (JStr ''clf_add_to_cart'')) ?r2,
        Print [JStr ''Deleting version: '', JStr ''v1''],
        Call (VersionsDelete (JStr ''v1'')) ?r3]"
  have five: "?tr3 = ?five" by simp
  have prog: "sweep srv n project =
     bind (delete_version srv v1_default ?tr2)
       (\<lambda>h tr3. bind (poll_wait srv n [h] tr3) (\<lambda>u tr4. delete_model srv cart_model tr4))"
    using assms by (rule single_default_program)
  obtain res where d: "delete_version srv v1_default ?tr2 = (res, ?tr3)"
    using delete_version_v1 [of srv ?tr2] by (cases "delete_version srv v1_default ?tr2") simp
  have goal: "\<exists>rest. snd (sweep srv n project) = ?five @ rest \<and> version_deletes rest = []
     \<and> (fst (sweep srv n project) = Inr () \<longrightarrow>
          (\<exists>mid r4. rest = mid @ [Print [JStr ''Deleting model: '', JStr ''clf_add_to_cart''],
                                  Call (ModelsDelete (JStr ''clf_add_to_cart'')) r4]
             \<and> list_all wait_event mid))"
  proof (cases res)
    case (Inl e)
    with prog d have "sweep srv n project = (Inl e, ?five)" by simp
    then show ?thesis by simp
  next
    case (Inr h)
    obtain w tr4 where w: "poll_wait srv n [h] ?tr3 = (w, tr4)"
      by (cases "poll_wait srv n [h] ?tr3")
    from poll_wait_ext [of srv n "[h]" ?tr3] w
    obtain mid where mid: "tr4 = ?tr3 @ mid" "list_all wait_event mid" by auto
    then have vm: "version_deletes mid = []" by (simp add: wait_events_reading)
    show ?thesis
    proof (cases w)
      case (Inl e)
      with prog d Inr w mid(1) have "sweep srv n project = (Inl e, ?five @ mid)" by simp
      with vm show ?thesis by simp
    next
      case u: (Inr u)
      with prog d Inr w have s: "sweep srv n project = delete_model srv cart_model tr4" by simp
      obtain res4 tr5 where dm: "delete_model srv cart_model tr4 = (res4, tr5)"
        by (cases "delete_model srv cart_model tr4")
      from delete_model_ext [of srv cart_model tr4] dm
      obtain ev where ev: "tr5 = tr4 @ ev" "list_all model_event ev" by auto
      then have ve: "version_deletes ev = []" by (simp add: model_events_reading)
      have t: "snd (sweep srv n project) = ?five @ (mid @ ev)"
        using s dm ev(1) mid(1) by simp
      have v: "version_deletes (mid @ ev) = []"
        using vm ve by (simp add: version_deletes_append)
      have "fst (sweep srv n project) = Inr () \<longrightarrow>
          (\<exists>r4. ev = [Print [JStr ''Deleting model: '', JStr ''clf_add_to_cart''],
                        Call (ModelsDelete (JStr ''clf_add_to_cart'')) r4])"
      proof
        assume "fst (sweep srv n project) = Inr ()"
        with s dm have "delete_model srv cart_model tr4 = (Inr (), tr5)" by simp
        from delete_model_Inr [OF this] ev(1) show
          "\<exists>r4. ev = [Print [JStr ''Deleting model: '', JStr ''clf_add_to_cart''],
                        Call (ModelsDelete (JStr ''clf_add_to_cart'')) r4]"
          by (auto simp: cart_model_def)
      qed
      with t v mid(2) show ?thesis by blast
    qed
  qed
  then show ?thesis by blast
qed

theorem single_default_version_sweep_witness:
  "map_of (mock_api [cart_model] only_default 1 [] (ModelsList (''projects/'' @ ''p''))) ''models''
     = Some (JArr [JObj cart_model])
   \<and> map_of (mock_api [cart_model] only_default 1
               [Call (ModelsList (''projects/'' @ ''p''))
                  (mock_api [cart_model] only_default 1 [] (ModelsList (''projects/'' @ ''p''))),
                Print [JStr ''Model: '', JStr ''clf_add_to_cart'']]
               (VersionsList (JStr ''clf_add_to_cart''))) ''versions''
     = Some (JArr [JObj v1_default])
   \<and> fst (sweep (mock_api [cart_model] only_default 1) 3 ''p'') = Inr ()
   \<and> version_deletes (snd (sweep (mock_api [cart_model] only_default 1) 3 ''p'')) = [JStr ''v1'']
   \<and> model_deletes (snd (sweep (mock_api [cart_model] only_default 1) 3 ''p''))
       = [JStr ''clf_add_to_cart'']"
proof -
  let ?A = "mock_api [cart_model] only_default 1"
  have a1: "map_of (?A [] (ModelsList (''projects/'' @ ''p''))) ''models''
     = Some (JArr [JObj cart_model])" by simp
  have a2: "map_of (?A [Call (ModelsList (''projects/'' @ ''p''))
                  (?A [] (ModelsList (''projects/'' @ ''p''))),
                Print [JStr ''Model: '', JStr ''clf_add_to_cart'']]
               (VersionsList (JStr ''clf_add_to_cart''))) ''versions''
     = Some (JArr [JObj v1_default])" by (simp add: only_default_def)
  have ok: "fst (sweep ?A 3 ''p'') = Inr ()" by code_simp
  from single_default_version_sweep [OF a1 a2, of 3] ok
  obtain r1 r2 r3 rest mid r4 where
    t: "snd (sweep ?A 3 ''p'') =
       [Call (ModelsList (''projects/'' @ ''p'')) r1,
        Print [JStr ''Model: '', JStr ''clf_add_to_cart''],
        Call (VersionsList (JStr ''clf_add_to_cart'')) r2,
        Print [JStr ''Deleting version: '', JStr ''v1''],
        Call (VersionsDelete (JStr ''v1'')) r3] @ rest"
    and v: "version_deletes rest = []"
    and r: "rest = mid @ [Print [JStr ''Deleting model: '', JStr ''clf_add_to_cart''],
                          Call (ModelsDelete (JStr ''clf_add_to_cart'')) r4]"
    and m: "list_all wait_event mid"
    by blast
  from t v have vd: "version_deletes (snd (sweep ?A 3 ''p'')) = [JStr ''v1'']"
    by (simp add: version_deletes_append)
  from m have "model_deletes mid = []" by (simp add: wait_events_reading)
  with t r have md: "model_deletes (snd (sweep ?A 3 ''p'')) = [JStr ''clf_add_to_cart'']"
    by (simp add: model_deletes_append)
  from a1 a2 ok vd md show ?thesis by blast
qed


subsection \<open>Every deletion of a version is waited for\<close>

lemma settled_ext:
  "settled tr S \<Longrightarrow> delete_responses ev = [] \<Longrightarrow> settled (tr @ ev) S"
  unfolding settled_def by (auto simp: delete_responses_append answered_done_append)

lemma settled_poll_wait:
  assumes "settled tr (Q \<union> set pending)" and "poll_wait srv n pending tr = (Inr (), tr')"
  shows "settled tr' Q"
proof -
  from poll_wait_ext [of srv n pending tr] assms(2)
  obtain ev where ev: "tr' = tr @ ev" "list_all wait_event ev" by auto
  then have dr: "delete_responses tr' = delete_responses tr"
    by (simp add: delete_responses_append wait_events_reading)
  show ?thesis
    unfolding settled_def
  proof
    fix r assume "r \<in> set (delete_responses tr')"
    with dr assms(1) obtain h where h: "map_of r ''name'' = Some h"
      "answered_done tr h \<or> h \<in> Q \<or> h \<in> set pending"
      unfolding settled_def by auto
    from h(2) have "answered_done tr' h \<or> h \<in> Q"
    proof (elim disjE)
      assume "answered_done tr h"
      with ev(1) show ?thesis by (simp add: answered_done_append)
    next
      assume "h \<in> Q"
      then show ?thesis by simp
    next
      assume "h \<in> set pending"
      with assms(2) show ?thesis by (simp add: poll_wait_answered_done)
    qed
    with h(1) show "\<exists>h. map_of r ''name'' = Some h \<and> (answered_done tr' h \<or> h \<in> Q)" by blast
  qed
qed

lemma settled_delete_version:
  assumes "settled tr S" and "delete_version srv v tr = (Inr h, tr')"
  shows "settled tr' (insert h S)"
proof -
  from delete_version_Inr [OF assms(2)] obtain n r where
    t: "tr' = tr @ [Print [JStr ''Deleting version: '', n], Call (VersionsDelete n) r]"
    and r: "map_of r ''name'' = Some h" by blast
  from t have dr: "delete_responses tr' = delete_responses tr @ [r]"
    by (simp add: delete_responses_append)
  show ?thesis
    unfolding settled_def
  proof
    fix r' assume "r' \<in> set (delete_responses tr')"
    with dr have "r' \<in> set (delete_responses tr) \<or> r' = r" by auto
    then show "\<exists>h'. map_of r' ''name'' = Some h' \<and> (answered_done tr' h' \<or> h' \<in> insert h S)"
    proof
      assume "r' \<in> set (delete_responses tr)"
      with assms(1) obtain h' where "map_of r' ''name'' = Some h'" "answered_done tr h' \<or> h' \<in> S"
        unfolding settled_def by blast
      with t show ?thesis by (auto simp: answered_done_append)
    next
      assume "r' = r"
      with r show ?thesis by simp
    qed
  qed
qed

lemma settled_non_default_loop:
  "settled tr (Q \<union> set dip) \<Longrightarrow>
   non_default_loop srv i versions dip tr = (Inr (versions', dip'), tr') \<Longrightarrow>
   settled tr' (Q \<union> set dip')"
proof (induction srv i versions dip tr rule: non_default_loop.induct)
  case (1 srv i versions dip tr)
  show ?case
  proof (cases "i < length versions")
    case False
    with "1.prems" show ?thesis by (simp add: non_default_loop_end)
  next
    case True
    show ?thesis
    proof (cases "has_key (versions ! i) ''isDefault''")
      case True
      with "1.IH"(2) [OF \<open>i < length versions\<close> refl] \<open>i < length versions\<close> "1.prems"
      show ?thesis by (simp add: non_default_loop_skip)
    next
      case False
      from "1.prems"(2) False \<open>i < length versions\<close>
      obtain h tr1 where d: "delete_version srv (versions ! i) tr = (Inr h, tr1)"
        and l: "non_default_loop srv (Suc i) (remove1 (versions ! i) versions) (dip @ [h]) tr1
           = (Inr (versions', dip'), tr')"
        by (auto simp: non_default_loop_delete dest: bind_eq_Inr)
      from settled_delete_version [OF "1.prems"(1) d]
      have "settled tr1 (Q \<union> set (dip @ [h]))" by simp
      from "1.IH"(1) [OF \<open>i < length versions\<close> refl False this l] show ?thesis .
    qed
  qed
qed

lemma settled_model_body:
  assumes "settled tr Q" and "model_body srv n m tr = (Inr h, tr')"
  shows "settled tr' (insert h Q)"
proof -
  from assms(2) obtain name tr0 where n: "getitem m ''name'' = Inr name" "tr0 = tr"
    and b1: "bind (get_versions srv name (tr0 @ [Print [JStr ''Model: '', name]]))
      (\<lambda>versions tr1. bind (non_default_loop srv 0 versions [] tr1)
        (\<lambda>(versions', deletions_in_progress) tr2.
           bind (poll_wait srv n deletions_in_progress tr2)
             (\<lambda>_ tr3. bind (first_version versions', tr3) (\<lambda>v tr4. delete_version srv v tr4))))
      = (Inr h, tr')"
    unfolding model_body_def by (auto dest!: bind_eq_Inr)
  from bind_eq_Inr [OF b1] obtain versions tr1 where
    gv: "get_versions srv name (tr @ [Print [JStr ''Model: '', name]]) = (Inr versions, tr1)"
    and b2: "bind (non_default_loop srv 0 versions [] tr1)
        (\<lambda>(versions', deletions_in_progress) tr2.
           bind (poll_wait srv n deletions_in_progress tr2)
             (\<lambda>_ tr3. bind (first_version versions', tr3) (\<lambda>v tr4. delete_version srv v tr4)))
      = (Inr h, tr')"
    using n(2) by auto
  from bind_eq_Inr [OF b2] obtain versions' dip tr2 where
    nl: "non_default_loop srv 0 versions [] tr1 = (Inr (versions', dip), tr2)"
    and b3: "bind (poll_wait srv n dip tr2)
             (\<lambda>_ tr3. bind (first_version versions', tr3) (\<lambda>v tr4. delete_version srv v tr4))
      = (Inr h, tr')"
    by auto
  from bind_eq_Inr [OF b3] obtain tr3 where
    pw: "poll_wait srv n dip tr2 = (Inr (), tr3)"
    and b4: "bind (first_version versions', tr3) (\<lambda>v tr4. delete_version srv v tr4) = (Inr h, tr')"
    by auto
  from bind_eq_Inr [OF b4] obtain v where dv: "delete_version srv v tr3 = (Inr h, tr')"
    by auto
  from gv get_versions_trace [of srv name "tr @ [Print [JStr ''Model: '', name]]"]
  have "tr1 = tr @ [Print [JStr ''Model: '', name],
                    Call (VersionsList name) (srv (tr @ [Print [JStr ''Model: '', name]]) (VersionsList name))]"
    by simp
  with settled_ext [OF assms(1)] have "settled tr1 Q" by simp
  then have "settled tr1 (Q \<union> set [])" by simp
  from settled_non_default_loop [OF this nl] have "settled tr2 (Q \<union> set dip)" .
  from settled_poll_wait [OF this pw] have "settled tr3 Q" .
  from settled_delete_version [OF this dv] show ?thesis .
qed

lemma settled_models_loop:
  "settled tr (set dd) \<Longrightarrow> models_loop srv n ms dd tr = (Inr dd', tr') \<Longrightarrow> settled tr' (set dd')"
proof (induction ms arbitrary: dd tr)
  case Nil
  then show ?case by simp
next
  case (Cons m ms)
  from Cons.prems(2) obtain h tr1 where b: "model_body srv n m tr = (Inr h, tr1)"
    and l: "models_loop srv n ms (dd @ [h]) tr1 = (Inr dd', tr')"
    by (auto dest: bind_eq_Inr)
  from settled_model_body [OF Cons.prems(1) b] have "settled tr1 (set (dd @ [h]))" by simp
  from Cons.IH [OF this l] show ?case .
qed

lemma settled_all_answered_done: "settled tr {} \<Longrightarrow> all_answered_done (tr @ ev) tr"
  unfolding settled_def all_answered_done_def
  by (auto simp: list_all_iff answered_done_append)


lemma delete_models_requests:
  "\<exists>k \<le> length ms.
     map Some (model_deletes (snd (delete_models srv ms tr)))
       = map Some (model_deletes tr) @ take k (map (\<lambda>m. map_of m ''name'') ms)
     \<and> (fst (delete_models srv ms tr) = Inr () \<longrightarrow> k = length ms)"
proof (induction ms arbitrary: tr)
  case Nil
  show ?case by simp
next
  case (Cons m ms)
  obtain res tr1 where d: "delete_model srv m tr = (res, tr1)"
    by (cases "delete_model srv m tr")
  show ?case
  proof (cases res)
    case (Inl e)
    show ?thesis
    proof (cases "map_of m ''name''")
      case None
      with d Inl have "delete_models srv (m # ms) tr = (Inl e, tr)"
        by (auto simp: delete_model_def getitem_def)
      then have "map Some (model_deletes (snd (delete_models srv (m # ms) tr)))
            = map Some (model_deletes tr) @ take 0 (map (\<lambda>m. map_of m ''name'') (m # ms))
          \<and> (fst (delete_models srv (m # ms) tr) = Inr () \<longrightarrow> 0 = length (m # ms))"
        by simp
      then show ?thesis by blast
    next
      case (Some name)
      with d have "\<exists>r. tr1 = tr @ [Print [JStr ''Deleting model: '', name], Call (ModelsDelete name) r]"
        by (auto simp: delete_model_def getitem_def Let_def split: if_splits)
      with d Inl Some have "map Some (model_deletes (snd (delete_models srv (m # ms) tr)))
            = map Some (model_deletes tr) @ take (Suc 0) (map (\<lambda>m. map_of m ''name'') (m # ms))
          \<and> (fst (delete_models srv (m # ms) tr) = Inr () \<longrightarrow> Suc 0 = length (m # ms))"
        by (auto simp: model_deletes_append)
      moreover have "Suc 0 \<le> length (m # ms)" by simp
      ultimately show ?thesis by blast
    qed
  next
    case (Inr u)
    with d have d': "delete_model srv m tr = (Inr u, tr1)" by simp
    from delete_model_Inr [OF d'] obtain name r where
      nm: "map_of m ''name'' = Some name"
      and t: "tr1 = tr @ [Print [JStr ''Deleting model: '', name], Call (ModelsDelete name) r]"
      by blast
    from Cons.IH [of tr1] obtain k where k: "k \<le> length ms"
      "map Some (model_deletes (snd (delete_models srv ms tr1)))
         = map Some (model_deletes tr1) @ take k (map (\<lambda>m. map_of m ''name'') ms)"
      "fst (delete_models srv ms tr1) = Inr () \<longrightarrow> k = length ms" by blast
    have "map Some (model_deletes (snd (delete_models srv (m # ms) tr)))
            = map Some (model_deletes tr) @ take (Suc k) (map (\<lambda>m. map_of m ''name'') (m # ms))
          \<and> (fst (delete_models srv (m # ms) tr) = Inr () \<longrightarrow> Suc k = length (m # ms))"
      using d' k(2,3) nm t by (simp add: model_deletes_append)
    moreover have "Suc k \<le> length (m # ms)" using k(1) by simp
    ultimately show ?thesis by blast
  qed
qed

lemma early_no_model_deletes: "list_all (\<lambda>e. \<not> is_model_delete e) tr \<Longrightarrow> model_deletes tr = []"
proof (induction tr)
  case Nil
  then show ?case by simp
next
  case (Cons e tr)
  then show ?case by (cases e rule: is_model_delete.cases) simp_all
qed

lemma models_loop_named:
  "models_loop srv n ms dd tr = (Inr dd', tr') \<Longrightarrow> \<forall>m \<in> set ms. map_of m ''name'' \<noteq> None"
proof (induction ms arbitrary: dd tr)
  case Nil
  show ?case by simp
next
  case (Cons m ms)
  from Cons.prems obtain h tr1 where b: "model_body srv n m tr = (Inr h, tr1)"
    and l: "models_loop srv n ms (dd @ [h]) tr1 = (Inr dd', tr')"
    by (auto dest: bind_eq_Inr)
  from b have "map_of m ''name'' \<noteq> None"
    unfolding model_body_def by (auto simp: getitem_def dest!: bind_eq_Inr split: option.splits)
  with Cons.IH [OF l] show ?case by simp
qed

text \<open>Models that have a name: the only exception of their deletion is the \<open>NameError\<close>.\<close>

lemma delete_models_failure:
  "\<forall>m \<in> set ms. map_of m ''name'' \<noteq> None \<Longrightarrow> fst (delete_models srv ms tr) = Inl e \<Longrightarrow>
     e = NameError ''error''"
proof (induction ms arbitrary: tr)
  case Nil
  then show ?case by simp
next
  case (Cons m ms)
  obtain res tr1 where d: "delete_model srv m tr = (res, tr1)"
    by (cases "delete_model srv m tr")
  show ?case
  proof (cases res)
    case (Inl e')
    with d Cons.prems(2) have "e' = e" by simp
    with d Inl Cons.prems(1) show ?thesis
      by (auto simp: delete_model_def getitem_def Let_def split: option.splits if_splits)
  next
    case (Inr u)
    with d Cons.prems(2) have "fst (delete_models srv ms tr1) = Inl e" by simp
    with Cons.IH [of tr1] Cons.prems(1) show ?thesis by simp
  qed
qed

text \<open>
  C4. Claimed: no model deletion is requested before every version deletion has reported
  completion, and then exactly one is requested per enumerated model. On the API that
  answers every poll with \<^verbatim>\<open>"done": false\<close> the sweep ends normally and has requested the
  deletion of the model, while the one version deletion never reported completion. On
  the API that answers a model deletion with an error payload, two models are enumerated,
  the version deletions are all waited for, and one model deletion is requested.
\<close>

theorem model_deleted_before_completion_reported:
  "fst (sweep done_false_mock 3 ''p'') = Inr ()
   \<and> version_deletes (snd (sweep done_false_mock 3 ''p'')) = [JStr ''v1'']
   \<and> delete_responses (snd (sweep done_false_mock 3 ''p''))
       = [[(''name'', JStr ''operations/delete_v1'')]]
   \<and> reported (snd (sweep done_false_mock 3 ''p'')) (JStr ''operations/delete_v1'') = False
   \<and> model_deletes (snd (sweep done_false_mock 3 ''p'')) = [JStr ''clf_add_to_cart'']
   \<and> fst (get_models model_error_api ''p'' []) = Inr two_models
   \<and> fst (sweep model_error_api 3 ''p'') = Inl (NameError ''error'')
   \<and> model_deletes (snd (sweep model_error_api 3 ''p'')) = [JStr ''clf_add_to_cart'']"
  by code_simp

text \<open>
  C4, amended. In every run of the sweep, whatever its outcome: if a model deletion was
  requested at all, then every version deletion of the run had returned a handle, and a
  poll of that handle had been answered with the key \<^verbatim>\<open>done\<close> before the first model
  deletion was requested. The model deletions requested are those of the first \<open>k\<close>
  enumerated models, one request each and in the order of the list, and a run that ends
  normally has requested the deletion of every enumerated model.
\<close>

theorem models_deleted_after_all_versions:
  "(model_deletes (snd (sweep srv n project)) \<noteq> [] \<longrightarrow>
      all_answered_done (takeWhile (\<lambda>e. \<not> is_model_delete e) (snd (sweep srv n project)))
        (snd (sweep srv n project)))
   \<and> (fst (get_models srv project []) = Inr ms \<longrightarrow>
        (\<exists>k \<le> length ms.
           map Some (model_deletes (snd (sweep srv n project)))
             = take k (map (\<lambda>m. map_of m ''name'') ms)
           \<and> (fst (sweep srv n project) = Inr () \<longrightarrow> k = length ms)))
   \<and> (fst (sweep srv n project) = Inr () \<longrightarrow> (\<exists>ms. fst (get_models srv project []) = Inr ms))"
  using sweep_stages [of srv project n]
proof
  assume "\<exists>ms tr1 dd tr2 tr3.
       get_models srv project [] = (Inr ms, tr1) \<and> models_loop srv n ms [] tr1 = (Inr dd, tr2)
       \<and> poll_wait srv n dd tr2 = (Inr (), tr3) \<and> list_all (\<lambda>e. \<not> is_model_delete e) tr3
       \<and> sweep srv n project = delete_models srv ms tr3"
  then obtain ms' tr1 dd tr2 tr3 where
    g: "get_models srv project [] = (Inr ms', tr1)"
    and l: "models_loop srv n ms' [] tr1 = (Inr dd, tr2)"
    and w: "poll_wait srv n dd tr2 = (Inr (), tr3)"
    and e3: "list_all (\<lambda>e. \<not> is_model_delete e) tr3"
    and s: "sweep srv n project = delete_models srv ms' tr3" by blast
  from g get_models_trace [of srv project "[]"]
  have "delete_responses tr1 = []" by simp
  then have "settled tr1 (set [])" by (simp add: settled_def)
  from settled_models_loop [OF this l] have "settled tr2 ({} \<union> set dd)" by simp
  from settled_poll_wait [OF this w] have st: "settled tr3 {}" .
  from delete_models_ext [of srv ms' tr3] obtain ev where
    ev: "snd (delete_models srv ms' tr3) = tr3 @ ev" "list_all model_event ev" by blast
  let ?T = "snd (sweep srv n project)"
  have tw: "takeWhile (\<lambda>e. \<not> is_model_delete e) ?T = tr3 @ takeWhile (\<lambda>e. \<not> is_model_delete e) ev"
    using s ev(1) e3 by (simp add: takeWhile_all)
  have "delete_responses ?T = delete_responses tr3"
    using s ev by (simp add: delete_responses_append model_events_reading)
  then have c: "all_answered_done (takeWhile (\<lambda>e. \<not> is_model_delete e) ?T) ?T"
    using settled_all_answered_done [OF st, of "takeWhile (\<lambda>e. \<not> is_model_delete e) ev"] tw
    by (simp add: all_answered_done_def)
  from delete_models_requests [of ms' srv tr3] obtain k where k: "k \<le> length ms'"
    "map Some (model_deletes (snd (delete_models srv ms' tr3)))
       = map Some (model_deletes tr3) @ take k (map (\<lambda>m. map_of m ''name'') ms')"
    "fst (delete_models srv ms' tr3) = Inr () \<longrightarrow> k = length ms'" by blast
  have p: "fst (get_models srv project []) = Inr ms \<longrightarrow>
        (\<exists>k \<le> length ms.
           map Some (model_deletes ?T) = take k (map (\<lambda>m. map_of m ''name'') ms)
           \<and> (fst (sweep srv n project) = Inr () \<longrightarrow> k = length ms))"
  proof
    assume "fst (get_models srv project []) = Inr ms"
    with g have "ms = ms'" by simp
    with k s e3 show "\<exists>k \<le> length ms.
           map Some (model_deletes ?T) = take k (map (\<lambda>m. map_of m ''name'') ms)
           \<and> (fst (sweep srv n project) = Inr () \<longrightarrow> k = length ms)"
      by (auto simp: early_no_model_deletes)
  qed
  from g have x: "\<exists>ms. fst (get_models srv project []) = Inr ms" by simp
  from c p x show ?thesis by blast
next
  assume a: "(\<exists>e. fst (sweep srv n project) = Inl e)
      \<and> list_all (\<lambda>e. \<not> is_model_delete e) (snd (sweep srv n project))"
  then have md: "model_deletes (snd (sweep srv n project)) = []"
    by (simp add: early_no_model_deletes)
  have "fst (get_models srv project []) = Inr ms \<longrightarrow>
        (\<exists>k \<le> length ms.
           map Some (model_deletes (snd (sweep srv n project)))
             = take k (map (\<lambda>m. map_of m ''name'') ms)
           \<and> (fst (sweep srv n project) = Inr () \<longrightarrow> k = length ms))"
  proof
    assume "fst (get_models srv project []) = Inr ms"
    from a md have "map Some (model_deletes (snd (sweep srv n project)))
             = take 0 (map (\<lambda>m. map_of m ''name'') ms)
           \<and> (fst (sweep srv n project) = Inr () \<longrightarrow> 0 = length ms)" by auto
    then show "\<exists>k \<le> length ms.
           map Some (model_deletes (snd (sweep srv n project)))
             = take k (map (\<lambda>m. map_of m ''name'') ms)
           \<and> (fst (sweep srv n project) = Inr () \<longrightarrow> k = length ms)" by blast
  qed
  with a md show ?thesis by auto
qed


theorem models_deleted_after_all_versions_witness:
  "model_deletes (snd (sweep (mock_api two_models three_versions 1) 3 ''p'')) \<noteq> []
   \<and> all_answered_done
        (takeWhile (\<lambda>e. \<not> is_model_delete e) (snd (sweep (mock_api two_models three_versions 1) 3 ''p'')))
        (snd (sweep (mock_api two_models three_versions 1) 3 ''p''))
   \<and> fst (get_models (mock_api two_models three_versions 1) ''p'' []) = Inr two_models
   \<and> fst (sweep (mock_api two_models three_versions 1) 3 ''p'') = Inr ()
   \<and> model_deletes (snd (sweep (mock_api two_models three_versions 1) 3 ''p''))
       = [JStr ''clf_add_to_cart'', JStr ''clf_purchase'']"
proof -
  let ?A = "mock_api two_models three_versions 1"
  have d: "model_deletes (snd (sweep ?A 3 ''p'')) \<noteq> []" by code_simp
  have g: "fst (get_models ?A ''p'' []) = Inr two_models" by code_simp
  have ok: "fst (sweep ?A 3 ''p'') = Inr ()" by code_simp
  note T = models_deleted_after_all_versions
    [where srv = ?A and n = 3 and project = "''p''" and ms = two_models]
  from T d have c: "all_answered_done (takeWhile (\<lambda>e. \<not> is_model_delete e) (snd (sweep ?A 3 ''p'')))
        (snd (sweep ?A 3 ''p''))" by blast
  from T g ok have "map Some (model_deletes (snd (sweep ?A 3 ''p'')))
      = take (length two_models) (map (\<lambda>m. map_of m ''name'') two_models)"
    by blast
  then have "map Some (model_deletes (snd (sweep ?A 3 ''p'')))
      = map Some [JStr ''clf_add_to_cart'', JStr ''clf_purchase'']"
    by (simp add: two_models_def cart_model_def)
  then have m: "model_deletes (snd (sweep ?A 3 ''p'')) = [JStr ''clf_add_to_cart'', JStr ''clf_purchase'']"
    by (simp only: inj_map_eq_map [OF inj_Some])
  from d c g ok m show ?thesis by blast
qed

end
